theory Spec2Isabelle
  imports Complex_Main "HOL-Library.AList"
begin

section \<open>Data model (types.ts, App)\<close>

datatype MessageAuthor = USER | MODEL

record ChatMessage =
  author :: MessageAuthor
  msg_text :: string

text \<open>
  A JavaScript value as far as the turn handler inspects it: \<open>typeof v === 'string'\<close>,
  \<open>Array.isArray v\<close>, or anything else. The \<open>choices\<close> of a story state are typed
  \<open>string[]\<close> in the source but hold whatever \<open>parsedResponse.choices\<close> was at run time.
\<close>

datatype jsval = JUndefined | JString string | JArray "string list" | JOther

record StoryState =
  chatHistory :: "ChatMessage list"
  imageUrl :: "string option"
  choices :: jsval

definition availableVoices :: "string list" where
  "availableVoices = [''Puck'', ''Charon'', ''Fenrir'', ''Zephyr'']"

definition narratorVoice :: string where
  "narratorVoice = ''Kore''"

definition welcomeMessage :: ChatMessage where
  "welcomeMessage = \<lparr>author = MODEL,
     msg_text = ''Hello! I can tell you a story. What should our adventure be about today?''\<rparr>"

definition initialStoryState :: StoryState where
  "initialStoryState = \<lparr>chatHistory = [welcomeMessage],
     imageUrl = Some ''https://picsum.photos/seed/welcome/1024/1024'',
     choices = JArray []\<rparr>"

definition apologyMessage :: ChatMessage where
  "apologyMessage = \<lparr>author = MODEL,
     msg_text = ''Oh dear! My imagination got stuck. Let's try telling a different story.''\<rparr>"

subsection \<open>Narration player state\<close>

text \<open>
  A suspended invocation of \<open>processNarrationQueue\<close>: the version it captured on entry
  and the payload it shifted off the queue, waiting either at \<open>await resume()\<close> or at
  \<open>await decodeAudioData(...)\<close>.
\<close>

datatype task = AwaitResume nat string | AwaitDecode nat string

fun task_version :: "task \<Rightarrow> nat" where
  "task_version (AwaitResume v a) = v"
| "task_version (AwaitDecode v a) = v"

fun task_data :: "task \<Rightarrow> string" where
  "task_data (AwaitResume v a) = a"
| "task_data (AwaitDecode v a) = a"

text \<open>
  The refs of the component that narration touches. \<open>pending\<close> holds the suspended
  invocations, \<open>started\<close> logs every source on which \<open>start()\<close> was called (captured
  version and payload; the position is the source's identity), \<open>endedSources\<close> the
  sources whose \<open>ended\<close> event was delivered.
\<close>

record narration_state =
  narrationVersion :: nat
  narrationQueue :: "string list"
  isPlayingNarration :: bool
  currentNarrationSource :: "nat option"
  narrationAudioContext :: bool
  pending :: "task list"
  started :: "(nat \<times> string) list"
  endedSources :: "nat list"

definition initialNarration :: narration_state where
  "initialNarration = \<lparr>narrationVersion = 0, narrationQueue = [], isPlayingNarration = False,
     currentNarrationSource = None, narrationAudioContext = False, pending = [],
     started = [], endedSources = []\<rparr>"

text \<open>
  What the platform answers during one synchronous run of the player: whether the
  AudioContext constructor succeeds, whether the context reports \<open>suspended\<close>, whether the
  synchronous \<open>decode\<close> of a payload returns, and whether creating and starting a buffer
  source succeeds.
\<close>

record audio_env =
  ctor_ok :: bool
  suspended :: bool
  decode_ok :: "string \<Rightarrow> bool"
  start_ok :: bool

subsection \<open>Ambiance player state\<close>

record ambiance_state =
  ambianceAudioContext :: bool
  currentAmbianceSource :: "nat option"
  currentAmbianceUrl :: "string option"
  ambianceStarted :: "string list"
  fadingOut :: "nat list"

definition initialAmbiance :: ambiance_state where
  "initialAmbiance = \<lparr>ambianceAudioContext = False, currentAmbianceSource = None,
     currentAmbianceUrl = None, ambianceStarted = [], fadingOut = []\<rparr>"

datatype fetch_result = FetchRejects | FetchResponse bool nat

record ambiance_env =
  amb_ctor_ok :: bool
  amb_suspended :: bool
  amb_resume_ok :: bool
  amb_fetch :: "string \<Rightarrow> fetch_result"
  amb_decode_ok :: bool

subsection \<open>A turn in flight\<close>

text \<open>
  Where an invocation of \<open>handleSendMessage\<close> is suspended: at \<open>await sendMessage\<close>, at
  \<open>await Promise.all\<close> (with the locals it needs afterwards: story text, new choices, the
  (text, voice) pairs sent to \<open>textToSpeech\<close> and the image prompt), or at
  \<open>await playNarrationSequence\<close> (with the version its narration call set).
\<close>

datatype turn_phase =
    AwaitSend
  | AwaitAll string jsval "(string \<times> string) list" string
  | AwaitNarration nat

text \<open>
  The suspended invocation with what its closure holds: the input, and the \<open>history\<close>,
  \<open>historyIndex\<close> and \<open>characterVoices\<close> of the render in which it was called, and
  \<open>newChatHistory\<close>.
\<close>

record pending_turn =
  turn_input :: string
  turn_history :: "StoryState list"
  turn_historyIndex :: nat
  turn_characterVoices :: "(string \<times> string) list"
  turn_chatHistory :: "ChatMessage list"
  turn_phase :: turn_phase

subsection \<open>Component state\<close>

record app_state =
  view :: StoryState
  isLoading :: bool
  characterVoices :: "(string \<times> string) list"
  history :: "StoryState list"
  historyIndex :: nat
  chatSession :: bool
  welcomeAudioHandled :: bool
  narration :: narration_state
  ambiance :: ambiance_state
  turn :: "pending_turn option"

definition initialApp :: app_state where
  "initialApp = \<lparr>view = initialStoryState, isLoading = False,
     characterVoices = [(''NARRATOR'', narratorVoice)],
     history = [initialStoryState], historyIndex = 0, chatSession = True,
     welcomeAudioHandled = False, narration = initialNarration, ambiance = initialAmbiance,
     turn = None\<rparr>"

section \<open>Story history: commit, undo, redo\<close>

text \<open>The effect that copies \<open>history[historyIndex]\<close> into the rendered state.\<close>

definition sync_view :: "app_state \<Rightarrow> app_state" where
  "sync_view s = (if historyIndex s < length (history s)
                  then s\<lparr>view := history s ! historyIndex s\<rparr> else s)"

definition canUndo :: "app_state \<Rightarrow> bool" where
  "canUndo s = (0 < historyIndex s)"

text \<open>\<open>historyIndex < history.length - 1\<close> on JavaScript numbers: no truncation at 0.\<close>

definition canRedo :: "app_state \<Rightarrow> bool" where
  "canRedo s = (int (historyIndex s) < int (length (history s)) - 1)"

definition handleUndo :: "app_state \<Rightarrow> app_state" where
  "handleUndo s = (if canUndo s then sync_view (s\<lparr>historyIndex := historyIndex s - 1\<rparr>) else s)"

definition handleRedo :: "app_state \<Rightarrow> app_state" where
  "handleRedo s = (if canRedo s then sync_view (s\<lparr>historyIndex := historyIndex s + 1\<rparr>) else s)"

text \<open>
  The final state update of a turn: \<open>history.slice(0, historyIndex + 1)\<close>, append, move.
  \<open>hist\<close> and \<open>idx\<close> are the \<open>history\<close> and \<open>historyIndex\<close> of the handler's closure, the
  values of the render in which the turn was started.
\<close>

definition commit :: "StoryState \<Rightarrow> StoryState list \<Rightarrow> nat \<Rightarrow> app_state \<Rightarrow> app_state" where
  "commit newState hist idx s =
     (let newHistory = take (idx + 1) hist
      in sync_view (s\<lparr>history := newHistory @ [newState], historyIndex := length newHistory\<rparr>))"

section \<open>Strings and the two regular expressions of the turn handler\<close>

text \<open>
  Characters are the code units below 256. \<open>is_space\<close> is what \<open>\s\<close> and \<open>trim\<close>
  treat as white space there: TAB, LF, VT, FF, CR, SPACE and NBSP.
\<close>

definition is_space :: "char \<Rightarrow> bool" where
  "is_space c = (c \<in> set [CHR 0x09, CHR 0x0A, CHR 0x0B, CHR 0x0C, CHR 0x0D, CHR 0x20, CHR 0xA0])"

definition trim :: "string \<Rightarrow> string" where
  "trim s = rev (dropWhile is_space (rev (dropWhile is_space s)))"

text \<open>
  \<open>str.replace(/{[^}]+}/g, f)\<close>: at an opening brace followed by at least one character
  other than a closing brace and then a closing brace, the match is replaced by \<open>f match\<close>
  and the scan goes on behind it; otherwise the character is kept.
\<close>

function replace_markup :: "(string \<Rightarrow> string) \<Rightarrow> string \<Rightarrow> string" where
  "replace_markup f [] = []"
| "replace_markup f (c # cs) =
     (if c = CHR ''{'' \<and> takeWhile (\<lambda>x. x \<noteq> CHR ''}'') cs \<noteq> []
         \<and> dropWhile (\<lambda>x. x \<noteq> CHR ''}'') cs \<noteq> []
      then f (c # takeWhile (\<lambda>x. x \<noteq> CHR ''}'') cs @ ''}'')
           @ replace_markup f (tl (dropWhile (\<lambda>x. x \<noteq> CHR ''}'') cs))
      else c # replace_markup f cs)"
  by pat_completeness auto
termination
proof (relation "measure (\<lambda>(f, s). length s)")
  fix f :: "string \<Rightarrow> string" and c :: char and cs :: string
  have "length (tl (dropWhile (\<lambda>x. x \<noteq> CHR ''}'') cs)) \<le> length cs"
    using length_dropWhile_le [of "\<lambda>x. x \<noteq> CHR ''}''" cs] by simp
  then show "((f, tl (dropWhile (\<lambda>x. x \<noteq> CHR ''}'') cs)), f, c # cs) \<in> measure (\<lambda>(f, s). length s)"
    by simp
qed simp_all

text \<open>\<open>match.split('|')[0].substring(1)\<close>: the part before the first bar, without its first character.\<close>

definition markup_word :: "string \<Rightarrow> string" where
  "markup_word m = tl (takeWhile (\<lambda>x. x \<noteq> CHR ''|'') m)"

definition is_tag_char :: "char \<Rightarrow> bool" where
  "is_tag_char c = (c \<in> set ''ABCDEFGHIJKLMNOPQRSTUVWXYZ'' \<or> is_space c)"

text \<open>
  \<open>storyText.matchAll(/\[([A-Z\s]+)\]([^\[]*)/g)\<close>: the pairs (group 1, group 2) of the
  successive matches. A match starts at an opening bracket followed by a non-empty run
  of tag characters and a closing bracket; group 2 runs up to the next opening bracket.
\<close>

function dialogue_matches :: "string \<Rightarrow> (string \<times> string) list" where
  "dialogue_matches [] = []"
| "dialogue_matches (c # cs) =
     (if c = CHR ''['' \<and> takeWhile is_tag_char cs \<noteq> []
         \<and> dropWhile is_tag_char cs \<noteq> [] \<and> hd (dropWhile is_tag_char cs) = CHR '']''
      then (takeWhile is_tag_char cs,
            takeWhile (\<lambda>x. x \<noteq> CHR ''['') (tl (dropWhile is_tag_char cs)))
           # dialogue_matches (dropWhile (\<lambda>x. x \<noteq> CHR ''['') (tl (dropWhile is_tag_char cs)))
      else dialogue_matches cs)"
  by pat_completeness auto
termination
proof (relation "measure length")
  fix c :: char and cs :: string
  have "length (dropWhile (\<lambda>x. x \<noteq> CHR ''['') (tl (dropWhile is_tag_char cs)))
          \<le> length (tl (dropWhile is_tag_char cs))"
    by (rule length_dropWhile_le)
  also have "\<dots> \<le> length cs"
    using length_dropWhile_le [of is_tag_char cs] by simp
  finally show "(dropWhile (\<lambda>x. x \<noteq> CHR ''['') (tl (dropWhile is_tag_char cs)), c # cs) \<in> measure length"
    by simp
qed simp_all

section \<open>Dialogue segments and character voices (handleSendMessage, character voice logic)\<close>

text \<open>The loop over the matches: trimmed speaker, stripped and trimmed text, empty texts skipped.\<close>

definition tagged_parts :: "string \<Rightarrow> (string \<times> string) list" where
  "tagged_parts storyText =
     filter (\<lambda>(speaker, txt). txt \<noteq> [])
       (map (\<lambda>(g1, g2). (trim g1, trim (replace_markup markup_word g2))) (dialogue_matches storyText))"

text \<open>\<open>dialogueParts\<close> after the fallback for text without any segment.\<close>

definition dialogueParts :: "string \<Rightarrow> (string \<times> string) list" where
  "dialogueParts storyText =
     (let parts = tagged_parts storyText
      in if parts = [] \<and> trim storyText \<noteq> [] then [(''NARRATOR'', storyText)] else parts)"

text \<open>\<open>!newCharacterVoices[speaker]\<close>: no entry, or an empty string.\<close>

definition no_voice :: "(string \<times> string) list \<Rightarrow> string \<Rightarrow> bool" where
  "no_voice voices speaker = (case map_of voices speaker of None \<Rightarrow> True | Some v \<Rightarrow> v = [])"

text \<open>\<open>Set.add\<close>, which keeps the order of first insertion.\<close>

definition set_add :: "'a list \<Rightarrow> 'a \<Rightarrow> 'a list" where
  "set_add xs x = (if x \<in> set xs then xs else xs @ [x])"

definition unassignedChars :: "(string \<times> string) list \<Rightarrow> string \<Rightarrow> string list" where
  "unassignedChars voices storyText =
     foldl set_add [] (filter (no_voice voices) (map fst (tagged_parts storyText)))"

text \<open>\<open>arr[Math.floor(Math.random() * arr.length)]\<close>, for the value \<open>r\<close> that \<open>Math.random()\<close> returned.\<close>

definition getRandomElement :: "real \<Rightarrow> 'a list \<Rightarrow> 'a" where
  "getRandomElement r arr = arr ! nat \<lfloor>r * real (length arr)\<rfloor>"

definition availableVoicePool :: "(string \<times> string) list \<Rightarrow> string list" where
  "availableVoicePool voices = filter (\<lambda>v. v \<notin> set (map snd voices)) availableVoices"

text \<open>
  \<open>unassignedChars.forEach\<close>: the pool is consumed from the front; once it is empty each
  further character takes a random voice. \<open>rnd k\<close> is what the \<open>k\<close>-th call of
  \<open>Math.random()\<close> in this loop returns.
\<close>

fun assign_voices :: "(nat \<Rightarrow> real) \<Rightarrow> nat \<Rightarrow> string list \<Rightarrow> string list
                        \<Rightarrow> (string \<times> string) list \<Rightarrow> (string \<times> string) list" where
  "assign_voices rnd k [] pool voices = voices"
| "assign_voices rnd k (c # chars) (v # pool) voices =
     assign_voices rnd k chars pool (AList.update c v voices)"
| "assign_voices rnd k (c # chars) [] voices =
     assign_voices rnd (Suc k) chars []
       (AList.update c (getRandomElement (rnd k) availableVoices) voices)"

definition newCharacterVoices :: "(nat \<Rightarrow> real) \<Rightarrow> (string \<times> string) list \<Rightarrow> string
                                    \<Rightarrow> (string \<times> string) list" where
  "newCharacterVoices rnd voices storyText =
     assign_voices rnd 0 (unassignedChars voices storyText) (availableVoicePool voices) voices"

text \<open>\<open>newCharacterVoices[part.speaker] || narratorVoice\<close>.\<close>

definition voice_for :: "(string \<times> string) list \<Rightarrow> string \<Rightarrow> string" where
  "voice_for voices speaker = (if no_voice voices speaker then narratorVoice else the (map_of voices speaker))"

text \<open>The (text, voice) pairs handed to \<open>textToSpeech\<close>, in segment order.\<close>

definition synthesis_requests :: "(nat \<Rightarrow> real) \<Rightarrow> (string \<times> string) list \<Rightarrow> string
                                    \<Rightarrow> (string \<times> string) list" where
  "synthesis_requests rnd voices storyText =
     map (\<lambda>(speaker, txt). (txt, voice_for (newCharacterVoices rnd voices storyText) speaker))
       (dialogueParts storyText)"

section \<open>Narration player (stopNarration, playNarration, playNarrationSequence, processNarrationQueue)\<close>

definition stopNarration :: "narration_state \<Rightarrow> narration_state" where
  "stopNarration s =
     s\<lparr>narrationVersion := narrationVersion s + 1, narrationQueue := [],
       currentNarrationSource := None, isPlayingNarration := False\<rparr>"

text \<open>
  One synchronous run of \<open>processNarrationQueue\<close>, up to its first \<open>await\<close> or its return.
  When the synchronous \<open>decode\<close> throws, the catch block clears the flag and calls the
  function again for the next item, still in the same run. Nothing else runs in between,
  so the two comparisons of the captured version with the current one that lie on this
  path compare a value with itself and are not written out; the continuations behind an
  \<open>await\<close> (\<open>after_resume\<close>, \<open>after_decode\<close>, \<open>on_play_failure\<close>, \<open>on_ended\<close>) make them.
\<close>

function processNarrationQueue :: "audio_env \<Rightarrow> narration_state \<Rightarrow> narration_state" where
  "processNarrationQueue e s =
     (if isPlayingNarration s \<or> narrationQueue s = [] then s
      else if hd (narrationQueue s) = []
        then s\<lparr>narrationQueue := tl (narrationQueue s), isPlayingNarration := False\<rparr>
      else if \<not> narrationAudioContext s \<and> \<not> ctor_ok e
        then s\<lparr>narrationQueue := tl (narrationQueue s), isPlayingNarration := False\<rparr>
      else if suspended e
        then s\<lparr>narrationQueue := tl (narrationQueue s), isPlayingNarration := True,
               narrationAudioContext := True,
               pending := pending s @ [AwaitResume (narrationVersion s) (hd (narrationQueue s))]\<rparr>
      else if \<not> decode_ok e (hd (narrationQueue s))
        then processNarrationQueue e
               (s\<lparr>narrationQueue := tl (narrationQueue s), isPlayingNarration := False,
                  narrationAudioContext := True\<rparr>)
      else s\<lparr>narrationQueue := tl (narrationQueue s), isPlayingNarration := True,
             narrationAudioContext := True,
             pending := pending s @ [AwaitDecode (narrationVersion s) (hd (narrationQueue s))]\<rparr>)"
  by pat_completeness auto
termination
  by (relation "measure (\<lambda>(e, s). length (narrationQueue s))") auto

declare processNarrationQueue.simps [simp del]

text \<open>The catch block of the \<open>try\<close> around decoding and starting, for captured version \<open>v\<close>.\<close>

definition on_play_failure :: "audio_env \<Rightarrow> nat \<Rightarrow> narration_state \<Rightarrow> narration_state" where
  "on_play_failure e v s =
     (if v = narrationVersion s then processNarrationQueue e (s\<lparr>isPlayingNarration := False\<rparr>)
      else s\<lparr>isPlayingNarration := False\<rparr>)"

text \<open>The code behind \<open>await resume()\<close>: the version check, then the synchronous \<open>decode\<close>.\<close>

definition after_resume :: "audio_env \<Rightarrow> nat \<Rightarrow> string \<Rightarrow> narration_state \<Rightarrow> narration_state" where
  "after_resume e v a s =
     (if v \<noteq> narrationVersion s then s\<lparr>isPlayingNarration := False\<rparr>
      else if \<not> decode_ok e a then on_play_failure e v s
      else s\<lparr>pending := pending s @ [AwaitDecode v a]\<rparr>)"

text \<open>The code behind \<open>await decodeAudioData(...)\<close>: the version check, then the source is started.\<close>

definition after_decode :: "audio_env \<Rightarrow> nat \<Rightarrow> string \<Rightarrow> narration_state \<Rightarrow> narration_state" where
  "after_decode e v a s =
     (if v \<noteq> narrationVersion s then s\<lparr>isPlayingNarration := False\<rparr>
      else if \<not> start_ok e then on_play_failure e v s
      else s\<lparr>started := started s @ [(v, a)], currentNarrationSource := Some (length (started s))\<rparr>)"

text \<open>The \<open>onended\<close> handler of source \<open>sid\<close>, which captured version \<open>v\<close>.\<close>

definition on_ended :: "audio_env \<Rightarrow> nat \<Rightarrow> nat \<Rightarrow> narration_state \<Rightarrow> narration_state" where
  "on_ended e sid v s =
     (let s1 = s\<lparr>isPlayingNarration := False,
                 currentNarrationSource :=
                   (if currentNarrationSource s = Some sid then None else currentNarrationSource s)\<rparr>
      in if v = narrationVersion s1 then processNarrationQueue e s1 else s1)"

definition playNarrationSequence :: "audio_env \<Rightarrow> string list \<Rightarrow> narration_state \<Rightarrow> narration_state" where
  "playNarrationSequence e audioDataArray s =
     processNarrationQueue e ((stopNarration s)\<lparr>narrationQueue := audioDataArray\<rparr>)"

definition playNarration :: "audio_env \<Rightarrow> string \<Rightarrow> narration_state \<Rightarrow> narration_state" where
  "playNarration e base64Audio s =
     processNarrationQueue e ((stopNarration s)\<lparr>narrationQueue := [base64Audio]\<rparr>)"

text \<open>
  What can happen to the player, one event loop turn each: a call of one of the two
  entry points, the settling of the promise a suspended invocation waits for (by its
  position in \<open>pending\<close>; the flag says whether it resolved), and the \<open>ended\<close> event of a
  started source (fired after it played out or was stopped).
\<close>

datatype narration_event =
    PlaySequence audio_env "string list"
  | PlayOne audio_env string
  | ResumeSettled audio_env nat bool
  | DecodeSettled audio_env nat bool
  | SourceEnded audio_env nat

definition remove_nth :: "nat \<Rightarrow> 'a list \<Rightarrow> 'a list" where
  "remove_nth i xs = take i xs @ drop (Suc i) xs"

fun narration_step :: "narration_event \<Rightarrow> narration_state \<Rightarrow> narration_state" where
  "narration_step (PlaySequence e items) s = playNarrationSequence e items s"
| "narration_step (PlayOne e item) s = playNarration e item s"
| "narration_step (ResumeSettled e i ok) s =
     (if i < length (pending s) then
        (case pending s ! i of
           AwaitResume v a \<Rightarrow>
             (if ok then after_resume e v a (s\<lparr>pending := remove_nth i (pending s)\<rparr>)
              else s\<lparr>pending := remove_nth i (pending s), isPlayingNarration := False\<rparr>)
         | AwaitDecode v a \<Rightarrow> s)
      else s)"
| "narration_step (DecodeSettled e i ok) s =
     (if i < length (pending s) then
        (case pending s ! i of
           AwaitDecode v a \<Rightarrow>
             (if ok then after_decode e v a (s\<lparr>pending := remove_nth i (pending s)\<rparr>)
              else on_play_failure e v (s\<lparr>pending := remove_nth i (pending s)\<rparr>))
         | AwaitResume v a \<Rightarrow> s)
      else s)"
| "narration_step (SourceEnded e sid) s =
     (if sid < length (started s) \<and> sid \<notin> set (endedSources s)
      then on_ended e sid (fst (started s ! sid)) (s\<lparr>endedSources := sid # endedSources s\<rparr>)
      else s)"

definition narration_run :: "narration_event list \<Rightarrow> narration_state \<Rightarrow> narration_state" where
  "narration_run evs s = fold narration_step evs s"

fun is_call :: "narration_event \<Rightarrow> bool" where
  "is_call (PlaySequence e items) = True"
| "is_call (PlayOne e item) = True"
| "is_call _ = False"

text \<open>The items a call supplies.\<close>

fun call_items :: "narration_event \<Rightarrow> string list" where
  "call_items (PlaySequence e items) = items"
| "call_items (PlayOne e item) = [item]"
| "call_items _ = []"

section \<open>Ambiance player (playAmbiance)\<close>

datatype ambiance_error = FetchFailed | HttpError | TooSmall | AmbianceDecodeError

text \<open>The \<open>try\<close> block: fetch, status check, size check, decode, start of the looping source.\<close>

definition ambiance_try :: "ambiance_env \<Rightarrow> string \<Rightarrow> ambiance_state \<Rightarrow> ambiance_error + ambiance_state" where
  "ambiance_try e url s =
     (case amb_fetch e url of
        FetchRejects \<Rightarrow> Inl FetchFailed
      | FetchResponse ok byteLength \<Rightarrow>
          if \<not> ok then Inl HttpError
          else if byteLength < 1024 then Inl TooSmall
          else if \<not> amb_decode_ok e then Inl AmbianceDecodeError
          else Inr (s\<lparr>ambianceStarted := ambianceStarted s @ [url],
                      currentAmbianceSource := Some (length (ambianceStarted s))\<rparr>))"

text \<open>
  One call of \<open>playAmbiance\<close>, run to its end. The gain schedule is left out; an old source
  handed to the fade-out timer is recorded in \<open>fadingOut\<close>.
\<close>

definition playAmbiance :: "ambiance_env \<Rightarrow> string \<Rightarrow> ambiance_state \<Rightarrow> ambiance_state" where
  "playAmbiance e url s =
     (if currentAmbianceUrl s = Some url then s
      else if \<not> ambianceAudioContext s \<and> \<not> amb_ctor_ok e
        then s\<lparr>currentAmbianceUrl := Some url\<rparr>
      else if amb_suspended e \<and> \<not> amb_resume_ok e
        then s\<lparr>currentAmbianceUrl := Some url, ambianceAudioContext := True\<rparr>
      else
        let s1 = s\<lparr>currentAmbianceUrl := Some url, ambianceAudioContext := True\<rparr>;
            s2 = (case currentAmbianceSource s1 of
                    None \<Rightarrow> s1
                  | Some oldSource \<Rightarrow> s1\<lparr>fadingOut := oldSource # fadingOut s1,
                                          currentAmbianceSource := None\<rparr>)
        in case ambiance_try e url s2 of
             Inl err \<Rightarrow> s2\<lparr>currentAmbianceUrl := None\<rparr>
           | Inr s3 \<Rightarrow> s3)"

definition ambianceAudioMap :: "(string \<times> string) list" where
  "ambianceAudioMap =
     [(''forest'', ''https://upload.wikimedia.org/wikipedia/commons/4/41/Forest_sounds.ogg''),
      (''cave'', ''https://upload.wikimedia.org/wikipedia/commons/0/0d/Sound_of_a_cave.ogg''),
      (''celebration'', ''https://upload.wikimedia.org/wikipedia/commons/e/e3/Crowd_Cheering_Sound_Effect.ogg''),
      (''mystery'', ''https://upload.wikimedia.org/wikipedia/commons/b/b3/Creepy_Music_Box.ogg''),
      (''ocean'', ''https://upload.wikimedia.org/wikipedia/commons/3/3a/Ocean_waves_sound_effect.ogg''),
      (''calm'', ''https://upload.wikimedia.org/wikipedia/commons/1/1b/Peaceful_sound_of_a_small_stream.ogg'')]"

text \<open>\<open>ambianceAudioMap[ambianceKeyword] || ambianceAudioMap.calm\<close>.\<close>

definition ambiance_url :: "string \<Rightarrow> string" where
  "ambiance_url keyword =
     (case map_of ambianceAudioMap keyword of
        Some u \<Rightarrow> u
      | None \<Rightarrow> ''https://upload.wikimedia.org/wikipedia/commons/1/1b/Peaceful_sound_of_a_small_stream.ogg'')"

section \<open>One turn (handleSendMessage)\<close>

datatype send_result = SendThrows | SendResponse "string option"

text \<open>
  What \<open>JSON.parse\<close> did with the response text: it threw, it returned \<open>null\<close> (reading a
  property of it throws), or it returned a value whose \<open>story\<close> and \<open>choices\<close> properties
  are the two components.
\<close>

datatype parse_result = ParseThrows | ParsedNull | ParsedValue jsval jsval

record turn_env =
  sendMessage :: "string \<Rightarrow> send_result"
  json_parse :: "string \<Rightarrow> parse_result"
  textToSpeech :: "string \<Rightarrow> string \<Rightarrow> string option"
  generateIllustration :: "string \<Rightarrow> string"
  getStoryAmbiance :: "string \<Rightarrow> string"
  random :: "nat \<Rightarrow> real"
  audio :: audio_env
  amb :: ambiance_env

text \<open>
  The inner \<open>try\<close>/\<open>catch\<close>: the story text (\<open>None\<close> when it ends up \<open>undefined\<close>) and
  \<open>newChoices\<close>. \<open>newChoices\<close> starts as the empty array and is assigned from the parsed
  value before the structure check; the catch block assigns \<open>storyText\<close> only.
\<close>

definition parse_response :: "(string \<Rightarrow> parse_result) \<Rightarrow> string option \<Rightarrow> string option \<times> jsval" where
  "parse_response parse response_text =
     (case response_text of
        None \<Rightarrow> (None, JArray [])
      | Some t \<Rightarrow>
          (case parse t of
             ParseThrows \<Rightarrow> (Some t, JArray [])
           | ParsedNull \<Rightarrow> (Some t, JArray [])
           | ParsedValue story newChoices \<Rightarrow>
               (case (story, newChoices) of
                  (JString storyText, JArray cs) \<Rightarrow> (Some storyText, JArray cs)
                | _ \<Rightarrow> (Some t, newChoices))))"

definition imageAdjectives :: "string list" where
  "imageAdjectives = [''whimsical'', ''charming'', ''vibrant'', ''dreamy'', ''enchanting'', ''playful'',
     ''cozy'', ''magical'', ''delightful'', ''colorful'', ''gentle'', ''sweet'']"

definition imageStyles :: "string list" where
  "imageStyles = [''storybook illustration'', ''watercolor painting'', ''crayon drawing'',
     ''colored pencil art'', ''digital painting'', ''charming cartoon style'',
     ''gouache painting'', ''delightful sketch'']"

definition imageDetails :: "string list" where
  "imageDetails = [''with soft, warm lighting'', ''in a friendly, inviting world'',
     ''featuring cute and lovable characters'', ''set in a beautiful, serene landscape'',
     ''with a touch of sparkle and wonder'', ''in a simple and clear style for kids'',
     ''full of happy details'']"

definition imagePrompt :: "(nat \<Rightarrow> real) \<Rightarrow> string \<Rightarrow> string" where
  "imagePrompt rnd storyText =
     ''A '' @ getRandomElement (rnd 0) imageAdjectives @ '' '' @ getRandomElement (rnd 1) imageStyles
       @ '', '' @ getRandomElement (rnd 2) imageDetails @ '', of: ''
       @ take 300 (replace_markup (\<lambda>m. []) storyText)"

datatype turn_error = GenerationFailed | StoryTextUndefined | SynthesisFailed

text \<open>The guard at the top of the handler.\<close>

definition accepted :: "string \<Rightarrow> app_state \<Rightarrow> bool" where
  "accepted userInput s = (trim userInput \<noteq> [] \<and> \<not> isLoading s \<and> chatSession s)"

text \<open>The chat of the snapshot at the cursor, \<open>history[historyIndex]?.chatHistory || []\<close>.\<close>

definition currentChatHistory :: "app_state \<Rightarrow> ChatMessage list" where
  "currentChatHistory s = (if historyIndex s < length (history s)
                           then chatHistory (history s ! historyIndex s) else [])"

text \<open>
  The handler up to \<open>await sendMessage\<close>: narration is stopped, the loading flag set, the
  user's message shown, and the invocation is suspended with its closure.
\<close>

definition turn_begin :: "string \<Rightarrow> app_state \<Rightarrow> app_state" where
  "turn_begin userInput s =
     (if \<not> accepted userInput s then s
      else
        let newChatHistory = currentChatHistory s @ [\<lparr>author = USER, msg_text = userInput\<rparr>]
        in s\<lparr>welcomeAudioHandled := True, narration := stopNarration (narration s),
             isLoading := True,
             view := (view s)\<lparr>choices := JArray [], chatHistory := newChatHistory\<rparr>,
             turn := Some \<lparr>turn_input = userInput, turn_history = history s,
                           turn_historyIndex = historyIndex s,
                           turn_characterVoices = characterVoices s,
                           turn_chatHistory = newChatHistory, turn_phase = AwaitSend\<rparr>\<rparr>)"

text \<open>The catch block: \<open>setChatHistory(prev => [...prev, errorMessage])\<close>.\<close>

definition turn_catch :: "app_state \<Rightarrow> app_state" where
  "turn_catch s = s\<lparr>view := (view s)\<lparr>chatHistory := chatHistory (view s) @ [apologyMessage]\<rparr>\<rparr>"

text \<open>The finally block, after which the invocation is over.\<close>

definition turn_finally :: "app_state \<Rightarrow> app_state" where
  "turn_finally s = s\<lparr>isLoading := False, turn := None\<rparr>"

text \<open>
  The handler from the settling of \<open>sendMessage\<close> to \<open>await Promise.all\<close>: the response is
  parsed, the voices are assigned and stored, and the illustration, the mood and the
  speech of every segment are requested. A rejected \<open>sendMessage\<close> and an undefined
  story text go to the catch block.
\<close>

definition turn_responded :: "turn_env \<Rightarrow> app_state \<Rightarrow> app_state" where
  "turn_responded E s =
     (case turn s of
        None \<Rightarrow> s
      | Some t \<Rightarrow>
          (case turn_phase t of
             AwaitSend \<Rightarrow>
               (case sendMessage E (turn_input t) of
                  SendThrows \<Rightarrow> turn_finally (turn_catch s)
                | SendResponse response_text \<Rightarrow>
                    (case parse_response (json_parse E) response_text of
                       (None, newChoices) \<Rightarrow> turn_finally (turn_catch s)
                     | (Some storyText, newChoices) \<Rightarrow>
                         s\<lparr>characterVoices :=
                              newCharacterVoices (\<lambda>k. random E (k + 3)) (turn_characterVoices t) storyText,
                            turn := Some (t\<lparr>turn_phase :=
                              AwaitAll storyText newChoices
                                (synthesis_requests (\<lambda>k. random E (k + 3)) (turn_characterVoices t) storyText)
                                (imagePrompt (random E) storyText)\<rparr>)\<rparr>))
           | AwaitAll storyText newChoices requests prompt \<Rightarrow> s
           | AwaitNarration v \<Rightarrow> s))"

text \<open>
  An invocation of \<open>processNarrationQueue\<close> on this state is suspended at an \<open>await\<close>
  rather than returning in its synchronous part.
\<close>

definition invocation_suspends :: "audio_env \<Rightarrow> narration_state \<Rightarrow> bool" where
  "invocation_suspends e n =
     (\<not> isPlayingNarration n \<and> narrationQueue n \<noteq> [] \<and> hd (narrationQueue n) \<noteq> []
      \<and> (narrationAudioContext n \<or> ctor_ok e)
      \<and> (suspended e \<or> decode_ok e (hd (narrationQueue n))))"

text \<open>
  The handler from the settling of \<open>Promise.all\<close> on. A rejected synthesis goes to the
  catch block. Otherwise the snapshot is committed with the closure's \<open>history\<close> and
  \<open>historyIndex\<close>, the ambiance switch is started and \<open>playNarrationSequence\<close> is called
  and awaited: when its invocation of \<open>processNarrationQueue\<close> returned in its
  synchronous part the finally block runs at once, otherwise the handler stays
  suspended until that invocation is over.
\<close>

definition turn_all_settled :: "turn_env \<Rightarrow> app_state \<Rightarrow> app_state" where
  "turn_all_settled E s =
     (case turn s of
        None \<Rightarrow> s
      | Some t \<Rightarrow>
          (case turn_phase t of
             AwaitAll storyText newChoices requests prompt \<Rightarrow>
               let audioData = map (\<lambda>(txt, voice). textToSpeech E txt voice) requests
               in if None \<in> set audioData then turn_finally (turn_catch s)
                  else
                    let newState = \<lparr>chatHistory = turn_chatHistory t @ [\<lparr>author = MODEL, msg_text = storyText\<rparr>],
                                     imageUrl = Some (generateIllustration E prompt),
                                     choices = newChoices\<rparr>;
                        s2 = commit newState (turn_history t) (turn_historyIndex t) s;
                        s3 = s2\<lparr>ambiance := playAmbiance (amb E) (ambiance_url (getStoryAmbiance E storyText))
                                                 (ambiance s2)\<rparr>;
                        n0 = (stopNarration (narration s3))\<lparr>narrationQueue := map the audioData\<rparr>;
                        s4 = s3\<lparr>narration := playNarrationSequence (audio E) (map the audioData) (narration s3)\<rparr>
                    in if invocation_suspends (audio E) n0
                       then s4\<lparr>turn := Some (t\<lparr>turn_phase := AwaitNarration (narrationVersion n0)\<rparr>)\<rparr>
                       else turn_finally s4
           | AwaitSend \<Rightarrow> s
           | AwaitNarration v \<Rightarrow> s))"

text \<open>
  The event settles the promise of the invocation that captured version \<open>V\<close> and that
  invocation is over afterwards: its resume failed, or it leaves at a version check or
  through the catch block, or its decode settled. (A resume that succeeds with the
  version unchanged and a decodable payload suspends the same invocation again.) While
  a handler awaits the invocation of its own narration call, that invocation is the
  only suspended one with its version.
\<close>

fun invocation_ends :: "nat \<Rightarrow> narration_event \<Rightarrow> narration_state \<Rightarrow> bool" where
  "invocation_ends V (ResumeSettled e i ok) n =
     (i < length (pending n) \<and>
      (case pending n ! i of
         AwaitResume v a \<Rightarrow> v = V \<and> \<not> (ok \<and> v = narrationVersion n \<and> decode_ok e a)
       | AwaitDecode v a \<Rightarrow> False))"
| "invocation_ends V (DecodeSettled e i ok) n =
     (i < length (pending n) \<and>
      (case pending n ! i of
         AwaitDecode v a \<Rightarrow> v = V
       | AwaitResume v a \<Rightarrow> False))"
| "invocation_ends V ev n = False"

text \<open>
  A promise of the narration player settles, or a source ends, while the component is
  mounted: the player takes its step, and a handler that awaited the invocation that is
  now over runs its finally block. (A call of the player is not such an event, and none
  is made while a turn is pending: the welcome audio is marked as handled when the turn
  starts, and the handler returns at its guard while the loading flag is set.)
\<close>

definition on_narration_event :: "narration_event \<Rightarrow> app_state \<Rightarrow> app_state" where
  "on_narration_event ev s =
     (if is_call ev then s
      else
        let s1 = s\<lparr>narration := narration_step ev (narration s)\<rparr>
        in case turn s of
             None \<Rightarrow> s1
           | Some t \<Rightarrow>
               (case turn_phase t of
                  AwaitNarration V \<Rightarrow> if invocation_ends V ev (narration s) then turn_finally s1 else s1
                | AwaitSend \<Rightarrow> s1
                | AwaitAll storyText newChoices requests prompt \<Rightarrow> s1))"

text \<open>
  A turn that nothing interrupts, from the call of the handler until it has ended or
  awaits its narration call.
\<close>

definition handleSendMessage :: "turn_env \<Rightarrow> string \<Rightarrow> app_state \<Rightarrow> app_state" where
  "handleSendMessage E userInput s =
     (if \<not> accepted userInput s then s
      else turn_all_settled E (turn_responded E (turn_begin userInput s)))"

section \<open>What can happen to the story history\<close>

text \<open>
  A turn is started (the handler is called and captures history and cursor), the
  pending turn makes its final state update with some snapshot and ends, the pending
  turn fails and ends, or one of the two buttons is clicked. The buttons are disabled by
  \<open>canUndo\<close> and \<open>canRedo\<close> only, not while a turn is pending; the handler is not called
  while one is (the input, the send button and the choices are disabled while loading).
\<close>

definition commit_turn :: "StoryState \<Rightarrow> app_state \<Rightarrow> app_state" where
  "commit_turn newState s =
     (case turn s of
        None \<Rightarrow> s
      | Some t \<Rightarrow> turn_finally (commit newState (turn_history t) (turn_historyIndex t) s))"

definition fail_turn :: "app_state \<Rightarrow> app_state" where
  "fail_turn s = (case turn s of None \<Rightarrow> s | Some t \<Rightarrow> turn_finally (turn_catch s))"

datatype history_op = Begin string | Commit StoryState | Fail | Undo | Redo

fun apply_history_op :: "history_op \<Rightarrow> app_state \<Rightarrow> app_state" where
  "apply_history_op (Begin userInput) s = turn_begin userInput s"
| "apply_history_op (Commit x) s = commit_turn x s"
| "apply_history_op Fail s = fail_turn s"
| "apply_history_op Undo s = handleUndo s"
| "apply_history_op Redo s = handleRedo s"

definition run_history :: "history_op list \<Rightarrow> app_state \<Rightarrow> app_state" where
  "run_history ops s = fold apply_history_op ops s"

section \<open>Auxiliary definitions for the statements\<close>

text \<open>A snapshot with one model message, to name the snapshots of an example.\<close>

definition snap :: "string \<Rightarrow> StoryState" where
  "snap t = \<lparr>chatHistory = [\<lparr>author = MODEL, msg_text = t\<rparr>], imageUrl = None, choices = JArray []\<rparr>"

text \<open>
  The cursor is an index of the log, a turn is pending exactly while the loading flag is
  set, and a pending turn captured the log as it still is, with an index of it.
\<close>

definition history_inv :: "app_state \<Rightarrow> bool" where
  "history_inv s =
     (historyIndex s < length (history s)
      \<and> (case turn s of
           None \<Rightarrow> \<not> isLoading s
         | Some t \<Rightarrow> isLoading s \<and> turn_history t = history s
                      \<and> turn_historyIndex t < length (history s)))"

text \<open>The component after two turns: the seed and two more snapshots, the cursor on the last.\<close>

definition three_snapshots :: app_state where
  "three_snapshots = run_history [Begin ''b'', Commit (snap ''B''), Begin ''c'', Commit (snap ''C'')] initialApp"

text \<open>A story with three tagged segments by two new speakers, and a cast that uses up the pool.\<close>

definition story3 :: string where
  "story3 = ''[BARNABY] I found a cave! [BARNABY] It is {luminous|meaning full of light}. [MOLLY] Let us go in.''"

definition full_cast :: "(string \<times> string) list" where
  "full_cast = [(''NARRATOR'', ''Kore''), (''OWL'', ''Puck''), (''FOX'', ''Charon''),
                (''BEAR'', ''Fenrir''), (''HARE'', ''Zephyr'')]"

text \<open>Collaborators for the examples.\<close>

definition quiet_audio :: audio_env where
  "quiet_audio = \<lparr>ctor_ok = True, suspended = False, decode_ok = (\<lambda>a. True), start_ok = True\<rparr>"

definition good_ambiance :: ambiance_env where
  "good_ambiance = \<lparr>amb_ctor_ok = True, amb_suspended = False, amb_resume_ok = True,
     amb_fetch = (\<lambda>u. FetchResponse True 4096), amb_decode_ok = True\<rparr>"

definition malformed_reply :: string where
  \<open>malformed_reply = ''{"story": 5, "choices": ["Go left"]}''\<close>

definition malformed_env :: turn_env where
  "malformed_env = \<lparr>sendMessage = (\<lambda>u. SendResponse (Some malformed_reply)),
     json_parse = (\<lambda>t. ParsedValue JOther (JArray [''Go left''])),
     textToSpeech = (\<lambda>txt voice. Some ''UklGRg==''),
     generateIllustration = (\<lambda>p. ''data:image/png;base64,AAAA''),
     getStoryAmbiance = (\<lambda>t. ''calm''),
     random = (\<lambda>k. 0), audio = quiet_audio, amb = good_ambiance\<rparr>"

definition plain_env :: turn_env where
  "plain_env = malformed_env\<lparr>sendMessage := (\<lambda>u. SendResponse (Some ''Once upon a time...'')),
     json_parse := (\<lambda>t. ParseThrows)\<rparr>"

definition stuck_ambiance :: ambiance_env where
  "stuck_ambiance = good_ambiance\<lparr>amb_suspended := True, amb_resume_ok := False\<rparr>"

definition offline_ambiance :: ambiance_env where
  "offline_ambiance = good_ambiance\<lparr>amb_fetch := (\<lambda>u. FetchRejects)\<rparr>"

definition mute_env :: turn_env where
  "mute_env = plain_env\<lparr>textToSpeech := (\<lambda>txt voice. None)\<rparr>"

text \<open>Collaborators whose generation call rejects, and a platform without an audio context.\<close>

definition silent_env :: turn_env where
  "silent_env = plain_env\<lparr>sendMessage := (\<lambda>u. SendThrows)\<rparr>"

definition deaf_env :: turn_env where
  "deaf_env = plain_env\<lparr>audio := quiet_audio\<lparr>ctor_ok := False\<rparr>\<rparr>"

text \<open>Which step of the outer \<open>try\<close> block throws, if any, read off the collaborators' answers.\<close>

definition turn_outcome :: "turn_env \<Rightarrow> string \<Rightarrow> app_state \<Rightarrow> turn_error option" where
  "turn_outcome E userInput s =
     (case sendMessage E userInput of
        SendThrows \<Rightarrow> Some GenerationFailed
      | SendResponse response_text \<Rightarrow>
          (case parse_response (json_parse E) response_text of
             (None, newChoices) \<Rightarrow> Some StoryTextUndefined
           | (Some storyText, newChoices) \<Rightarrow>
               if None \<in> set (map (\<lambda>(txt, voice). textToSpeech E txt voice)
                    (synthesis_requests (\<lambda>k. random E (k + 3)) (characterVoices s) storyText))
               then Some SynthesisFailed else None))"

text \<open>
  The invariant behind cancellation, for the version \<open>V\<close> and the payloads \<open>A\<close> of the
  latest call: the queue holds payloads of \<open>A\<close> only, no suspended invocation captured
  a later version, those that captured \<open>V\<close> carry a payload of \<open>A\<close>, and every source
  started since (beyond \<open>old\<close>) captured \<open>V\<close> and plays a payload of \<open>A\<close>.
\<close>

definition cancel_inv :: "nat \<Rightarrow> string set \<Rightarrow> (nat \<times> string) list \<Rightarrow> narration_state \<Rightarrow> bool" where
  "cancel_inv V A old s =
     (narrationVersion s = V \<and> set (narrationQueue s) \<subseteq> A
      \<and> (\<forall>t \<in> set (pending s). task_version t \<le> V \<and> (task_version t = V \<longrightarrow> task_data t \<in> A))
      \<and> (\<exists>new. started s = old @ new \<and> (\<forall>(v, a) \<in> set new. v = V \<and> a \<in> A)))"

definition versions_bounded :: "narration_state \<Rightarrow> bool" where
  "versions_bounded s = (\<forall>t \<in> set (pending s). task_version t \<le> narrationVersion s)"

text \<open>The run goes on to the next item: the head's synchronous decode throws.\<close>

definition skip_item :: "audio_env \<Rightarrow> narration_state \<Rightarrow> bool" where
  "skip_item e s =
     (\<not> isPlayingNarration s \<and> narrationQueue s \<noteq> [] \<and> hd (narrationQueue s) \<noteq> []
      \<and> (narrationAudioContext s \<or> ctor_ok e) \<and> \<not> suspended e
      \<and> \<not> decode_ok e (hd (narrationQueue s)))"

text \<open>
  Nothing of the current version is left to continue the drain: no suspended invocation
  captured it, and every source that captured it has delivered its \<open>ended\<close> event.
\<close>

definition drain_stopped :: "narration_state \<Rightarrow> bool" where
  "drain_stopped s =
     ((\<forall>t \<in> set (pending s). task_version t \<noteq> narrationVersion s)
      \<and> (\<forall>i < length (started s). fst (started s ! i) = narrationVersion s \<longrightarrow> i \<in> set (endedSources s)))"

definition sources_bounded :: "narration_state \<Rightarrow> bool" where
  "sources_bounded s = (\<forall>i < length (started s). fst (started s ! i) \<le> narrationVersion s)"

text \<open>Platforms for the examples: a suspended context, and a decoder that rejects one payload.\<close>

definition suspended_audio :: audio_env where
  "suspended_audio = quiet_audio\<lparr>suspended := True\<rparr>"

definition picky_audio :: audio_env where
  "picky_audio = quiet_audio\<lparr>decode_ok := (\<lambda>x. x \<noteq> ''b'')\<rparr>"

text \<open>The state after the commit and the two audio calls, before the handler goes on.\<close>

definition committed :: "turn_env \<Rightarrow> pending_turn \<Rightarrow> string \<Rightarrow> jsval \<Rightarrow> (string \<times> string) list
                           \<Rightarrow> string \<Rightarrow> app_state \<Rightarrow> app_state" where
  "committed E t storyText c requests prompt s =
     (let audioData = map (\<lambda>(txt, voice). textToSpeech E txt voice) requests;
          newState = \<lparr>chatHistory = turn_chatHistory t @ [\<lparr>author = MODEL, msg_text = storyText\<rparr>],
                       imageUrl = Some (generateIllustration E prompt), choices = c\<rparr>;
          s2 = commit newState (turn_history t) (turn_historyIndex t) s;
          s3 = s2\<lparr>ambiance := playAmbiance (amb E) (ambiance_url (getStoryAmbiance E storyText))
                                   (ambiance s2)\<rparr>
      in s3\<lparr>narration := playNarrationSequence (audio E) (map the audioData) (narration s3)\<rparr>)"

section \<open>Undo and redo\<close>

lemma undo_history: "history (handleUndo s) = history s"
  by (simp add: handleUndo_def sync_view_def)

lemma redo_history: "history (handleRedo s) = history s"
  by (simp add: handleRedo_def sync_view_def)

lemma undo_index: "historyIndex (handleUndo s) = (if canUndo s then historyIndex s - 1 else historyIndex s)"
  by (simp add: handleUndo_def sync_view_def)

lemma redo_index: "historyIndex (handleRedo s) = (if canRedo s then historyIndex s + 1 else historyIndex s)"
  by (simp add: handleRedo_def sync_view_def)

lemma redo_noop: "\<not> canRedo s \<Longrightarrow> handleRedo s = s"
  by (simp add: handleRedo_def)

text \<open>
  Claim C10. Undo and redo leave the history log, the character voices, the whole
  narration state (queue, version, flag, active source, suspended invocations, started
  sources), the whole ambiance state, the loading flag, the session and a pending turn
  untouched; each
  is either the identity or moves the cursor by one and copies the snapshot at the new
  cursor into the view.
\<close>

theorem undo_redo_frame:
  "history (handleUndo s) = history s \<and> history (handleRedo s) = history s
   \<and> characterVoices (handleUndo s) = characterVoices s \<and> characterVoices (handleRedo s) = characterVoices s
   \<and> narration (handleUndo s) = narration s \<and> narration (handleRedo s) = narration s
   \<and> ambiance (handleUndo s) = ambiance s \<and> ambiance (handleRedo s) = ambiance s
   \<and> isLoading (handleUndo s) = isLoading s \<and> isLoading (handleRedo s) = isLoading s
   \<and> chatSession (handleUndo s) = chatSession s \<and> chatSession (handleRedo s) = chatSession s
   \<and> welcomeAudioHandled (handleUndo s) = welcomeAudioHandled s
   \<and> welcomeAudioHandled (handleRedo s) = welcomeAudioHandled s
   \<and> turn (handleUndo s) = turn s \<and> turn (handleRedo s) = turn s
   \<and> handleUndo s = (if canUndo s then sync_view (s\<lparr>historyIndex := historyIndex s - 1\<rparr>) else s)
   \<and> handleRedo s = (if canRedo s then sync_view (s\<lparr>historyIndex := historyIndex s + 1\<rparr>) else s)
   \<and> view (handleUndo s) = (if canUndo s \<and> historyIndex s - 1 < length (history s)
                             then history s ! (historyIndex s - 1) else view s)
   \<and> view (handleRedo s) = (if canRedo s then history s ! (historyIndex s + 1) else view s)"
  by (auto simp: handleUndo_def handleRedo_def sync_view_def canRedo_def)

section \<open>Dialogue segments and voices\<close>

lemma assign_voices_other:
  "c \<notin> set chars \<Longrightarrow> map_of (assign_voices rnd k chars pool voices) c = map_of voices c"
  by (induction rnd k chars pool voices rule: assign_voices.induct) (simp_all add: update_conv')

lemma assign_voices_nth:
  "distinct chars \<Longrightarrow> i < length chars \<Longrightarrow>
   map_of (assign_voices rnd k chars pool voices) (chars ! i)
     = Some (if i < length pool then pool ! i
             else getRandomElement (rnd (k + i - length pool)) availableVoices)"
proof (induction rnd k chars pool voices arbitrary: i rule: assign_voices.induct)
  case (1 rnd k pool voices)
  then show ?case by simp
next
  case (2 rnd k c chars v pool voices)
  show ?case
  proof (cases i)
    case 0
    then show ?thesis using 2 by (simp add: assign_voices_other update_conv')
  next
    case (Suc j)
    then show ?thesis using 2 by simp
  qed
next
  case (3 rnd k c chars voices)
  show ?case
  proof (cases i)
    case 0
    then show ?thesis using 3 by (simp add: assign_voices_other update_conv')
  next
    case (Suc j)
    then show ?thesis using 3 by simp
  qed
qed

lemma foldl_set_add_distinct: "distinct acc \<Longrightarrow> distinct (foldl set_add acc xs)"
  by (induction xs arbitrary: acc) (simp_all add: set_add_def)

lemma foldl_set_add_set: "set (foldl set_add acc xs) = set acc \<union> set xs"
  by (induction xs arbitrary: acc) (auto simp: set_add_def)

lemma unassignedChars_distinct: "distinct (unassignedChars voices storyText)"
  by (simp add: unassignedChars_def foldl_set_add_distinct)

lemma getRandomElement_index:
  assumes "0 \<le> r" "r < 1" "xs \<noteq> []"
  shows "nat \<lfloor>r * real (length xs)\<rfloor> < length xs"
proof -
  have "r * real (length xs) < real (length xs)" using assms by simp
  then have "\<lfloor>r * real (length xs)\<rfloor> < int (length xs)" by (simp add: floor_less_iff)
  moreover have "0 \<le> \<lfloor>r * real (length xs)\<rfloor>" using assms by simp
  ultimately show ?thesis by linarith
qed

lemma getRandomElement_mem:
  "0 \<le> r \<Longrightarrow> r < 1 \<Longrightarrow> getRandomElement r availableVoices \<in> set availableVoices"
  unfolding getRandomElement_def
  by (rule nth_mem, rule getRandomElement_index) (simp_all add: availableVoices_def)

lemma getRandomElement_quarter:
  assumes "0 \<le> r" "r < 1" "i < 4"
  shows "(getRandomElement r availableVoices = availableVoices ! i)
           = (real i / 4 \<le> r \<and> r < (real i + 1) / 4)"
proof -
  have d: "distinct availableVoices" and l: "length availableVoices = 4"
    by (simp_all add: availableVoices_def)
  have j: "nat \<lfloor>r * 4\<rfloor> < 4"
    using getRandomElement_index [OF assms(1,2), of availableVoices] l by (simp add: availableVoices_def)
  have "(getRandomElement r availableVoices = availableVoices ! i) = (nat \<lfloor>r * 4\<rfloor> = i)"
    using d l j assms(3) by (simp add: getRandomElement_def nth_eq_iff_index_eq)
  also have "\<dots> = (\<lfloor>r * 4\<rfloor> = int i)" using assms(1) by auto
  also have "\<dots> = (real i / 4 \<le> r \<and> r < (real i + 1) / 4)"
    by (auto simp: floor_eq_iff field_simps)
  finally show ?thesis .
qed

lemma availableVoices_distinct: "distinct availableVoices"
  by (simp add: availableVoices_def)

text \<open>
  Claim C9. With only NARRATOR in the voice map and segments by BARNABY, BARNABY, MOLLY,
  the new map gives BARNABY the first and MOLLY the second voice of the pool, and the
  three synthesis requests use BARNABY's voice twice and then MOLLY's. In general the
  i-th new speaker (in order of first appearance) gets the i-th voice of the pool, the
  pool being the fixed voices that no entry of the map uses, without repetition; every
  other speaker keeps its entry; and once the pool is used up each further new speaker
  gets \<open>getRandomElement\<close> of the fixed voices for the next random number, which is one
  of the four fixed voices, each for a quarter of the unit interval.
\<close>

theorem voice_assignment:
  "(map fst (tagged_parts storyText) = [''BARNABY'', ''BARNABY'', ''MOLLY''] \<longrightarrow>
      newCharacterVoices rnd [(''NARRATOR'', narratorVoice)] storyText
        = [(''NARRATOR'', narratorVoice), (''BARNABY'', ''Puck''), (''MOLLY'', ''Charon'')]
      \<and> map snd (synthesis_requests rnd [(''NARRATOR'', narratorVoice)] storyText)
        = [''Puck'', ''Puck'', ''Charon''])
   \<and> (\<forall>i < length (unassignedChars voices storyText).
        map_of (newCharacterVoices rnd voices storyText) (unassignedChars voices storyText ! i)
          = Some (if i < length (availableVoicePool voices) then availableVoicePool voices ! i
                  else getRandomElement (rnd (i - length (availableVoicePool voices))) availableVoices))
   \<and> (\<forall>c. c \<notin> set (unassignedChars voices storyText) \<longrightarrow>
        map_of (newCharacterVoices rnd voices storyText) c = map_of voices c)
   \<and> distinct (availableVoicePool voices)
   \<and> set (availableVoicePool voices) = set availableVoices - snd ` set voices
   \<and> (\<forall>r. 0 \<le> r \<and> r < 1 \<longrightarrow> getRandomElement r availableVoices \<in> set availableVoices
        \<and> (\<forall>i < 4. (getRandomElement r availableVoices = availableVoices ! i)
                      = (real i / 4 \<le> r \<and> r < (real i + 1) / 4)))"
proof -
  have ex: "newCharacterVoices rnd [(''NARRATOR'', narratorVoice)] storyText
        = [(''NARRATOR'', narratorVoice), (''BARNABY'', ''Puck''), (''MOLLY'', ''Charon'')]
      \<and> map snd (synthesis_requests rnd [(''NARRATOR'', narratorVoice)] storyText)
        = [''Puck'', ''Puck'', ''Charon'']"
    if h: "map fst (tagged_parts storyText) = [''BARNABY'', ''BARNABY'', ''MOLLY'']"
  proof -
    have u: "unassignedChars [(''NARRATOR'', narratorVoice)] storyText = [''BARNABY'', ''MOLLY'']"
      by (simp add: unassignedChars_def h no_voice_def set_add_def)
    have p: "availableVoicePool [(''NARRATOR'', narratorVoice)] = [''Puck'', ''Charon'', ''Fenrir'', ''Zephyr'']"
      by (simp add: availableVoicePool_def availableVoices_def narratorVoice_def)
    have n: "newCharacterVoices rnd [(''NARRATOR'', narratorVoice)] storyText
        = [(''NARRATOR'', narratorVoice), (''BARNABY'', ''Puck''), (''MOLLY'', ''Charon'')]"
      by (simp add: newCharacterVoices_def u p)
    have ne: "tagged_parts storyText \<noteq> []" using h by auto
    have "map snd (synthesis_requests rnd [(''NARRATOR'', narratorVoice)] storyText)
        = map (voice_for [(''NARRATOR'', narratorVoice), (''BARNABY'', ''Puck''), (''MOLLY'', ''Charon'')])
            (map fst (tagged_parts storyText))"
      using ne by (simp add: synthesis_requests_def n dialogueParts_def Let_def case_prod_unfold comp_def)
    also have "\<dots> = [''Puck'', ''Puck'', ''Charon'']"
      by (simp add: h voice_for_def no_voice_def)
    finally show ?thesis using n by simp
  qed
  have nth: "\<forall>i < length (unassignedChars voices storyText).
        map_of (newCharacterVoices rnd voices storyText) (unassignedChars voices storyText ! i)
          = Some (if i < length (availableVoicePool voices) then availableVoicePool voices ! i
                  else getRandomElement (rnd (i - length (availableVoicePool voices))) availableVoices)"
    using assign_voices_nth [OF unassignedChars_distinct, of _ voices storyText rnd 0 "availableVoicePool voices" voices]
    by (simp add: newCharacterVoices_def)
  have other: "\<forall>c. c \<notin> set (unassignedChars voices storyText) \<longrightarrow>
        map_of (newCharacterVoices rnd voices storyText) c = map_of voices c"
    by (simp add: newCharacterVoices_def assign_voices_other)
  have pool: "distinct (availableVoicePool voices)
      \<and> set (availableVoicePool voices) = set availableVoices - snd ` set voices"
    unfolding availableVoicePool_def using availableVoices_distinct by auto
  have rand: "\<forall>r. 0 \<le> r \<and> r < 1 \<longrightarrow> getRandomElement r availableVoices \<in> set availableVoices
        \<and> (\<forall>i < 4. (getRandomElement r availableVoices = availableVoices ! i)
                      = (real i / 4 \<le> r \<and> r < (real i + 1) / 4))"
    using getRandomElement_mem getRandomElement_quarter by simp
  from ex nth other pool rand show ?thesis
    by (intro conjI impI) simp_all
qed

text \<open>
  The hypotheses hold for a concrete story: with the narrator alone the voices are Puck
  and Charon; with a cast that uses all four voices and the random number one half,
  MOLLY gets the third fixed voice and FOX keeps its own.
\<close>

lemma story3_speakers: "map fst (tagged_parts story3) = [''BARNABY'', ''BARNABY'', ''MOLLY'']"
  by code_simp

lemma story3_unassigned_full: "unassignedChars full_cast story3 = [''BARNABY'', ''MOLLY'']"
  by code_simp

lemma full_cast_pool: "availableVoicePool full_cast = []"
  by (simp add: availableVoicePool_def availableVoices_def full_cast_def)

lemma half_random: "getRandomElement (1 / 2) availableVoices = ''Fenrir''"
  by (simp add: getRandomElement_def availableVoices_def)

theorem voice_assignment_witness:
  "map fst (tagged_parts story3) = [''BARNABY'', ''BARNABY'', ''MOLLY'']
   \<and> newCharacterVoices (\<lambda>k. 1 / 2) [(''NARRATOR'', narratorVoice)] story3
        = [(''NARRATOR'', narratorVoice), (''BARNABY'', ''Puck''), (''MOLLY'', ''Charon'')]
   \<and> map snd (synthesis_requests (\<lambda>k. 1 / 2) [(''NARRATOR'', narratorVoice)] story3)
        = [''Puck'', ''Puck'', ''Charon'']
   \<and> 1 < length (unassignedChars full_cast story3)
   \<and> unassignedChars full_cast story3 ! 1 = ''MOLLY''
   \<and> map_of (newCharacterVoices (\<lambda>k. 1 / 2) full_cast story3) ''MOLLY'' = Some ''Fenrir''
   \<and> ''FOX'' \<notin> set (unassignedChars full_cast story3)
   \<and> map_of (newCharacterVoices (\<lambda>k. 1 / 2) full_cast story3) ''FOX'' = Some ''Charon''
   \<and> (0::real) \<le> 1 / 2 \<and> (1::real) / 2 < 1
   \<and> getRandomElement (1 / 2) availableVoices \<in> set availableVoices
   \<and> (2::nat) < 4
   \<and> getRandomElement (1 / 2) availableVoices = availableVoices ! 2"
proof -
  note a = voice_assignment [of story3 "\<lambda>k. 1 / 2" "[(''NARRATOR'', narratorVoice)]"]
  note b = voice_assignment [of story3 "\<lambda>k. 1 / 2" full_cast]
  have 1: "newCharacterVoices (\<lambda>k. 1 / 2) [(''NARRATOR'', narratorVoice)] story3
        = [(''NARRATOR'', narratorVoice), (''BARNABY'', ''Puck''), (''MOLLY'', ''Charon'')]
   \<and> map snd (synthesis_requests (\<lambda>k. 1 / 2) [(''NARRATOR'', narratorVoice)] story3)
        = [''Puck'', ''Puck'', ''Charon'']"
    using a story3_speakers by blast
  have "\<forall>i < length (unassignedChars full_cast story3).
        map_of (newCharacterVoices (\<lambda>k. 1 / 2) full_cast story3) (unassignedChars full_cast story3 ! i)
          = Some (if i < length (availableVoicePool full_cast) then availableVoicePool full_cast ! i
                  else getRandomElement (1 / 2) availableVoices)"
    using b by blast
  then have "1 < length (unassignedChars full_cast story3) \<longrightarrow>
        map_of (newCharacterVoices (\<lambda>k. 1 / 2) full_cast story3) (unassignedChars full_cast story3 ! 1)
          = Some (if 1 < length (availableVoicePool full_cast) then availableVoicePool full_cast ! 1
                  else getRandomElement (1 / 2) availableVoices)"
    by (rule spec)
  then have 2: "map_of (newCharacterVoices (\<lambda>k. 1 / 2) full_cast story3) ''MOLLY'' = Some ''Fenrir''"
    by (simp add: story3_unassigned_full full_cast_pool half_random)
  have "\<forall>c. c \<notin> set (unassignedChars full_cast story3) \<longrightarrow>
        map_of (newCharacterVoices (\<lambda>k. 1 / 2) full_cast story3) c = map_of full_cast c"
    using b by blast
  then have "''FOX'' \<notin> set (unassignedChars full_cast story3) \<longrightarrow>
        map_of (newCharacterVoices (\<lambda>k. 1 / 2) full_cast story3) ''FOX'' = map_of full_cast ''FOX''"
    by (rule spec)
  moreover have "map_of full_cast ''FOX'' = Some ''Charon''"
    by (simp add: full_cast_def)
  ultimately have 3: "map_of (newCharacterVoices (\<lambda>k. 1 / 2) full_cast story3) ''FOX'' = Some ''Charon''"
    by (simp add: story3_unassigned_full)
  have 4: "getRandomElement (1 / 2) availableVoices \<in> set availableVoices"
    unfolding half_random by (simp add: availableVoices_def)
  have 5: "getRandomElement (1 / 2) availableVoices = availableVoices ! 2"
    unfolding half_random by (simp add: availableVoices_def)
  show ?thesis
    using 1 2 3 4 5 story3_speakers by (simp add: story3_unassigned_full)
qed

text \<open>
  Claim C4, evaluated. A tagged segment is synthesised without its markup; text without
  any tag becomes one NARRATOR segment whose synthesis text is the story text as it is,
  markup included.
\<close>

theorem untagged_text_keeps_markup:
  "dialogueParts ''[NARRATOR] Hello {brave|meaning courageous} friend''
     = [(''NARRATOR'', ''Hello brave friend'')]
   \<and> dialogueParts ''Hello {brave|meaning courageous} friend''
     = [(''NARRATOR'', ''Hello {brave|meaning courageous} friend'')]
   \<and> synthesis_requests rnd [(''NARRATOR'', narratorVoice)] ''Hello {brave|meaning courageous} friend''
     = [(''Hello {brave|meaning courageous} friend'', ''Kore'')]"
  by code_simp

section \<open>Ambiance\<close>

text \<open>
  Claim C8, evaluated. When resuming the ambiance context fails, or the context cannot
  be created, the current-track marker keeps the requested url, so a second request
  for the same url returns at once and starts nothing. After a failed fetch the marker
  is cleared and the second request starts the track.
\<close>

theorem ambiance_marker_stays_after_resume_failure:
  "currentAmbianceUrl (playAmbiance stuck_ambiance (ambiance_url ''forest'') initialAmbiance)
     = Some (ambiance_url ''forest'')
   \<and> playAmbiance good_ambiance (ambiance_url ''forest'')
        (playAmbiance stuck_ambiance (ambiance_url ''forest'') initialAmbiance)
     = playAmbiance stuck_ambiance (ambiance_url ''forest'') initialAmbiance
   \<and> ambianceStarted (playAmbiance good_ambiance (ambiance_url ''forest'')
        (playAmbiance stuck_ambiance (ambiance_url ''forest'') initialAmbiance)) = []
   \<and> currentAmbianceUrl (playAmbiance (good_ambiance\<lparr>amb_ctor_ok := False\<rparr>) (ambiance_url ''forest'') initialAmbiance)
     = Some (ambiance_url ''forest'')
   \<and> currentAmbianceUrl (playAmbiance offline_ambiance (ambiance_url ''forest'') initialAmbiance) = None
   \<and> ambianceStarted (playAmbiance good_ambiance (ambiance_url ''forest'')
        (playAmbiance offline_ambiance (ambiance_url ''forest'') initialAmbiance))
     = [ambiance_url ''forest'']"
  by code_simp

section \<open>Narration player\<close>

lemma pnq_skip:
  "skip_item e s \<Longrightarrow>
   processNarrationQueue e s
     = processNarrationQueue e
         (s\<lparr>narrationQueue := tl (narrationQueue s), isPlayingNarration := False,
            narrationAudioContext := True\<rparr>)"
  by (subst processNarrationQueue.simps) (auto simp: skip_item_def)

lemma pnq_stop:
  "\<not> skip_item e s \<Longrightarrow>
   processNarrationQueue e s
     = (if isPlayingNarration s \<or> narrationQueue s = [] then s
        else if hd (narrationQueue s) = [] \<or> (\<not> narrationAudioContext s \<and> \<not> ctor_ok e)
          then s\<lparr>narrationQueue := tl (narrationQueue s), isPlayingNarration := False\<rparr>
        else s\<lparr>narrationQueue := tl (narrationQueue s), isPlayingNarration := True,
               narrationAudioContext := True,
               pending := pending s @
                 [if suspended e then AwaitResume (narrationVersion s) (hd (narrationQueue s))
                  else AwaitDecode (narrationVersion s) (hd (narrationQueue s))]\<rparr>)"
  by (subst processNarrationQueue.simps) (auto simp: skip_item_def)

lemma pnq_induct [case_names stop skip]:
  assumes "\<And>s. \<not> skip_item e s \<Longrightarrow> P s"
    and "\<And>s. skip_item e s \<Longrightarrow>
           P (s\<lparr>narrationQueue := tl (narrationQueue s), isPlayingNarration := False,
                narrationAudioContext := True\<rparr>) \<Longrightarrow> P s"
  shows "P s"
proof (induction "length (narrationQueue s)" arbitrary: s rule: less_induct)
  case less
  show ?case
  proof (cases "skip_item e s")
    case True
    then have "length (tl (narrationQueue s)) < length (narrationQueue s)"
      by (simp add: skip_item_def)
    then have "P (s\<lparr>narrationQueue := tl (narrationQueue s), isPlayingNarration := False,
                narrationAudioContext := True\<rparr>)"
      by (intro less) simp
    with True show ?thesis by (rule assms(2))
  next
    case False
    then show ?thesis by (rule assms(1))
  qed
qed

lemma set_tl_subset: "set (tl xs) \<subseteq> set xs"
  by (cases xs) auto

lemma pnq_version [simp]: "narrationVersion (processNarrationQueue e s) = narrationVersion s"
proof (induction s rule: pnq_induct [of e])
  case (stop s)
  show ?case unfolding pnq_stop [OF stop] by simp
next
  case (skip s)
  show ?case unfolding pnq_skip [OF skip(1)] using skip(2) by simp
qed

lemma pnq_started [simp]: "started (processNarrationQueue e s) = started s"
proof (induction s rule: pnq_induct [of e])
  case (stop s)
  show ?case unfolding pnq_stop [OF stop] by simp
next
  case (skip s)
  show ?case unfolding pnq_skip [OF skip(1)] using skip(2) by simp
qed

lemma pnq_ended [simp]: "endedSources (processNarrationQueue e s) = endedSources s"
proof (induction s rule: pnq_induct [of e])
  case (stop s)
  show ?case unfolding pnq_stop [OF stop] by simp
next
  case (skip s)
  show ?case unfolding pnq_skip [OF skip(1)] using skip(2) by simp
qed

lemma pnq_source [simp]: "currentNarrationSource (processNarrationQueue e s) = currentNarrationSource s"
proof (induction s rule: pnq_induct [of e])
  case (stop s)
  show ?case unfolding pnq_stop [OF stop] by simp
next
  case (skip s)
  show ?case unfolding pnq_skip [OF skip(1)] using skip(2) by simp
qed

lemma pnq_queue: "set (narrationQueue (processNarrationQueue e s)) \<subseteq> set (narrationQueue s)"
proof (induction s rule: pnq_induct [of e])
  case (stop s)
  show ?case unfolding pnq_stop [OF stop] using set_tl_subset [of "narrationQueue s"] by simp
next
  case (skip s)
  show ?case unfolding pnq_skip [OF skip(1)]
    using skip(2) set_tl_subset [of "narrationQueue s"] by auto
qed

lemma pnq_pending:
  "set (pending (processNarrationQueue e s))
     \<subseteq> set (pending s) \<union> {t. task_version t = narrationVersion s \<and> task_data t \<in> set (narrationQueue s)}"
proof (induction s rule: pnq_induct [of e])
  case (stop s)
  show ?case unfolding pnq_stop [OF stop] by auto
next
  case (skip s)
  show ?case unfolding pnq_skip [OF skip(1)]
    using skip(2) set_tl_subset [of "narrationQueue s"] by auto
qed

lemma cancel_invI:
  assumes "narrationVersion s = V" "set (narrationQueue s) \<subseteq> A"
    and "\<And>t. t \<in> set (pending s) \<Longrightarrow> task_version t \<le> V \<and> (task_version t = V \<longrightarrow> task_data t \<in> A)"
    and "\<exists>new. started s = old @ new \<and> (\<forall>(v, a) \<in> set new. v = V \<and> a \<in> A)"
  shows "cancel_inv V A old s"
  using assms unfolding cancel_inv_def by blast

lemma cancel_invD:
  assumes "cancel_inv V A old s"
  shows "narrationVersion s = V" "set (narrationQueue s) \<subseteq> A"
    and "\<And>t. t \<in> set (pending s) \<Longrightarrow> task_version t \<le> V \<and> (task_version t = V \<longrightarrow> task_data t \<in> A)"
    and "\<exists>new. started s = old @ new \<and> (\<forall>(v, a) \<in> set new. v = V \<and> a \<in> A)"
  using assms unfolding cancel_inv_def by blast+

lemma inv_pnq:
  assumes "cancel_inv V A old s"
  shows "cancel_inv V A old (processNarrationQueue e s)"
proof (rule cancel_invI)
  note d = cancel_invD [OF assms]
  show "narrationVersion (processNarrationQueue e s) = V" using d(1) by simp
  show "set (narrationQueue (processNarrationQueue e s)) \<subseteq> A"
    using pnq_queue [of e s] d(2) by (rule subset_trans)
  show "\<exists>new. started (processNarrationQueue e s) = old @ new \<and> (\<forall>(v, a) \<in> set new. v = V \<and> a \<in> A)"
    using d(4) by simp
  fix t
  assume "t \<in> set (pending (processNarrationQueue e s))"
  then consider "t \<in> set (pending s)"
    | "task_version t = narrationVersion s" "task_data t \<in> set (narrationQueue s)"
    using pnq_pending [of e s] by blast
  then show "task_version t \<le> V \<and> (task_version t = V \<longrightarrow> task_data t \<in> A)"
  proof cases
    case 1
    then show ?thesis by (rule d(3))
  next
    case 2
    then show ?thesis using d(1,2) by auto
  qed
qed

lemma inv_flag [simp]: "cancel_inv V A old (s\<lparr>isPlayingNarration := b\<rparr>) = cancel_inv V A old s"
  by (simp add: cancel_inv_def)

lemma inv_source [simp]: "cancel_inv V A old (s\<lparr>currentNarrationSource := x\<rparr>) = cancel_inv V A old s"
  by (simp add: cancel_inv_def)

lemma inv_ended [simp]: "cancel_inv V A old (s\<lparr>endedSources := x\<rparr>) = cancel_inv V A old s"
  by (simp add: cancel_inv_def)

lemma set_remove_nth: "set (remove_nth i xs) \<subseteq> set xs"
  unfolding remove_nth_def using set_take_subset [of i xs] set_drop_subset [of "Suc i" xs] by auto

lemma inv_remove:
  assumes "cancel_inv V A old s"
  shows "cancel_inv V A old (s\<lparr>pending := remove_nth i (pending s)\<rparr>)"
proof (rule cancel_invI)
  note d = cancel_invD [OF assms]
  show "narrationVersion (s\<lparr>pending := remove_nth i (pending s)\<rparr>) = V" using d(1) by simp
  show "set (narrationQueue (s\<lparr>pending := remove_nth i (pending s)\<rparr>)) \<subseteq> A" using d(2) by simp
  show "\<exists>new. started (s\<lparr>pending := remove_nth i (pending s)\<rparr>) = old @ new
          \<and> (\<forall>(v, a) \<in> set new. v = V \<and> a \<in> A)"
    using d(4) by simp
  fix t
  assume "t \<in> set (pending (s\<lparr>pending := remove_nth i (pending s)\<rparr>))"
  then have "t \<in> set (pending s)" using set_remove_nth [of i "pending s"] by auto
  then show "task_version t \<le> V \<and> (task_version t = V \<longrightarrow> task_data t \<in> A)" by (rule d(3))
qed

lemma inv_on_play_failure: "cancel_inv V A old s \<Longrightarrow> cancel_inv V A old (on_play_failure e v s)"
  by (simp add: on_play_failure_def inv_pnq)

lemma inv_after_resume:
  assumes "cancel_inv V A old s" "v \<le> V" "v = V \<longrightarrow> a \<in> A"
  shows "cancel_inv V A old (after_resume e v a s)"
proof -
  have "cancel_inv V A old (s\<lparr>pending := pending s @ [AwaitDecode v a]\<rparr>)"
    using assms by (simp add: cancel_inv_def)
  then show ?thesis using assms(1) by (auto simp: after_resume_def inv_on_play_failure)
qed

lemma inv_after_decode:
  assumes "cancel_inv V A old s" "v = V \<longrightarrow> a \<in> A"
  shows "cancel_inv V A old (after_decode e v a s)"
proof -
  have "cancel_inv V A old (s\<lparr>started := started s @ [(v, a)],
                               currentNarrationSource := Some (length (started s))\<rparr>)"
    if "v = narrationVersion s"
    using assms that by (auto simp: cancel_inv_def)
  then show ?thesis using assms(1) by (auto simp: after_decode_def inv_on_play_failure)
qed

lemma inv_on_ended: "cancel_inv V A old s \<Longrightarrow> cancel_inv V A old (on_ended e sid v s)"
  by (simp add: on_ended_def Let_def inv_pnq)

lemma step_inv:
  assumes "cancel_inv V A old s" "\<not> is_call ev"
  shows "cancel_inv V A old (narration_step ev s)"
proof (cases ev)
  case (ResumeSettled e i ok)
  show ?thesis
  proof (cases "i < length (pending s)")
    case True
    then have m: "pending s ! i \<in> set (pending s)" by simp
    show ?thesis
    proof (cases "pending s ! i")
      case (AwaitResume v a)
      then have "v \<le> V" "v = V \<longrightarrow> a \<in> A"
        using assms(1) m by (auto simp: cancel_inv_def)
      then show ?thesis
        using True AwaitResume assms(1) by (simp add: ResumeSettled inv_after_resume inv_remove)
    next
      case (AwaitDecode v a)
      then show ?thesis using True assms(1) by (simp add: ResumeSettled)
    qed
  next
    case False
    then show ?thesis using assms(1) by (simp add: ResumeSettled)
  qed
next
  case (DecodeSettled e i ok)
  show ?thesis
  proof (cases "i < length (pending s)")
    case True
    then have m: "pending s ! i \<in> set (pending s)" by simp
    show ?thesis
    proof (cases "pending s ! i")
      case (AwaitDecode v a)
      then have "v = V \<longrightarrow> a \<in> A"
        using assms(1) m by (auto simp: cancel_inv_def)
      then show ?thesis
        using True AwaitDecode assms(1)
        by (simp add: DecodeSettled inv_after_decode inv_on_play_failure inv_remove)
    next
      case (AwaitResume v a)
      then show ?thesis using True assms(1) by (simp add: DecodeSettled)
    qed
  next
    case False
    then show ?thesis using assms(1) by (simp add: DecodeSettled)
  qed
next
  case (SourceEnded e sid)
  then show ?thesis using assms(1) by (simp add: inv_on_ended)
qed (use assms(2) in simp_all)

lemma run_inv:
  "cancel_inv V A old s \<Longrightarrow> \<forall>ev \<in> set evs. \<not> is_call ev \<Longrightarrow> cancel_inv V A old (narration_run evs s)"
  unfolding narration_run_def
  by (induction evs arbitrary: s) (simp_all add: step_inv)

lemma inv_bounded: "cancel_inv V A old s \<Longrightarrow> versions_bounded s"
  by (simp add: cancel_inv_def versions_bounded_def)

lemma bounded_inv: "versions_bounded s \<Longrightarrow> cancel_inv (narrationVersion s) UNIV (started s) s"
  by (simp add: cancel_inv_def versions_bounded_def)

lemma stop_inv:
  assumes "versions_bounded s"
  shows "cancel_inv (narrationVersion s + 1) (set items) (started s)
           ((stopNarration s)\<lparr>narrationQueue := items\<rparr>)"
proof -
  have "\<forall>t \<in> set (pending s). task_version t \<le> narrationVersion s + 1
          \<and> (task_version t = narrationVersion s + 1 \<longrightarrow> task_data t \<in> set items)"
    using assms by (fastforce simp: versions_bounded_def)
  then show ?thesis
    by (simp add: cancel_inv_def stopNarration_def)
qed

lemma call_inv:
  assumes "versions_bounded s" "is_call c"
  shows "cancel_inv (narrationVersion s + 1) (set (call_items c)) (started s) (narration_step c s)"
proof (cases c)
  case (PlaySequence e items)
  show ?thesis
    using inv_pnq [OF stop_inv [OF assms(1), of items], of e]
    by (simp add: PlaySequence playNarrationSequence_def)
next
  case (PlayOne e item)
  show ?thesis
    using inv_pnq [OF stop_inv [OF assms(1), of "[item]"], of e]
    by (simp add: PlayOne playNarration_def)
qed (use assms(2) in simp_all)

lemma call_started: "is_call c \<Longrightarrow> started (narration_step c s) = started s"
  by (cases c) (simp_all add: playNarrationSequence_def playNarration_def stopNarration_def)

lemma call_version: "is_call c \<Longrightarrow> narrationVersion (narration_step c s) = narrationVersion s + 1"
  by (cases c) (simp_all add: playNarrationSequence_def playNarration_def stopNarration_def)

lemma step_bounded:
  assumes "versions_bounded s"
  shows "versions_bounded (narration_step ev s)"
proof (cases "is_call ev")
  case True
  show ?thesis by (rule inv_bounded [OF call_inv [OF assms True]])
next
  case False
  show ?thesis by (rule inv_bounded [OF step_inv [OF bounded_inv [OF assms] False]])
qed

lemma run_bounded: "versions_bounded s \<Longrightarrow> versions_bounded (narration_run evs s)"
  unfolding narration_run_def
  by (induction evs arbitrary: s) (simp_all add: step_bounded)

lemma calls_inv:
  assumes "versions_bounded s" "calls \<noteq> []" "\<forall>c \<in> set calls. is_call c"
  shows "cancel_inv (narrationVersion s + length calls) (set (call_items (last calls))) (started s)
           (narration_run calls s)"
  using assms
proof (induction calls arbitrary: s)
  case Nil
  then show ?case by simp
next
  case (Cons c cs)
  have c: "is_call c" using Cons.prems by simp
  note one = call_inv [OF Cons.prems(1) c]
  show ?case
  proof (cases "cs = []")
    case True
    then show ?thesis using one by (simp add: narration_run_def)
  next
    case False
    have "cancel_inv (narrationVersion (narration_step c s) + length cs) (set (call_items (last cs)))
            (started (narration_step c s)) (narration_run cs (narration_step c s))"
      using Cons.prems False by (intro Cons.IH inv_bounded [OF one]) simp_all
    then show ?thesis
      using False c by (simp add: narration_run_def call_started call_version)
  qed
qed

text \<open>
  Claim C1, amended. After any earlier events, a non-empty run of back-to-back calls and
  then any events other than calls, every source started since the calls captured the
  version of the last call and plays an item of the last call; each call raised the
  version by one. A suspended invocation, or an \<open>ended\<close> handler, that finds its
  captured version outdated starts nothing and leaves queue, version and sources as they
  are; it does clear the playing flag (and the handler the reference to its own source).
\<close>

theorem only_last_call_is_heard:
  assumes "calls \<noteq> []" "\<forall>c \<in> set calls. is_call c" "\<forall>ev \<in> set later. \<not> is_call ev"
  shows "(\<exists>new. started (narration_run later (narration_run calls (narration_run earlier initialNarration)))
                 = started (narration_run earlier initialNarration) @ new
               \<and> (\<forall>(v, a) \<in> set new.
                     v = narrationVersion (narration_run earlier initialNarration) + length calls
                     \<and> a \<in> set (call_items (last calls))))
       \<and> narrationVersion (narration_run calls (narration_run earlier initialNarration))
           = narrationVersion (narration_run earlier initialNarration) + length calls
       \<and> (i < length (pending s) \<and> pending s ! i = AwaitDecode v a \<and> v \<noteq> narrationVersion s \<longrightarrow>
            narration_step (DecodeSettled e i ok) s
              = s\<lparr>pending := remove_nth i (pending s), isPlayingNarration := False\<rparr>)
       \<and> (i < length (pending s) \<and> pending s ! i = AwaitResume v a \<and> v \<noteq> narrationVersion s \<longrightarrow>
            narration_step (ResumeSettled e i ok) s
              = s\<lparr>pending := remove_nth i (pending s), isPlayingNarration := False\<rparr>)
       \<and> (sid < length (started s) \<and> sid \<notin> set (endedSources s)
            \<and> fst (started s ! sid) \<noteq> narrationVersion s \<longrightarrow>
            narration_step (SourceEnded e sid) s
              = s\<lparr>endedSources := sid # endedSources s, isPlayingNarration := False,
                   currentNarrationSource :=
                     (if currentNarrationSource s = Some sid then None else currentNarrationSource s)\<rparr>)"
proof -
  define s1 where "s1 = narration_run earlier initialNarration"
  have b: "versions_bounded s1"
    unfolding s1_def by (rule run_bounded) (simp add: versions_bounded_def initialNarration_def)
  note c = calls_inv [OF b assms(1,2)]
  note r = run_inv [OF c assms(3)]
  have 1: "\<exists>new. started (narration_run later (narration_run calls s1)) = started s1 @ new
               \<and> (\<forall>(v, a) \<in> set new. v = narrationVersion s1 + length calls
                     \<and> a \<in> set (call_items (last calls)))"
    by (rule cancel_invD(4) [OF r])
  have 2: "narrationVersion (narration_run calls s1) = narrationVersion s1 + length calls"
    by (rule cancel_invD(1) [OF c])
  have 3: "i < length (pending s) \<and> pending s ! i = AwaitDecode v a \<and> v \<noteq> narrationVersion s \<longrightarrow>
            narration_step (DecodeSettled e i ok) s
              = s\<lparr>pending := remove_nth i (pending s), isPlayingNarration := False\<rparr>"
    by (simp add: after_decode_def on_play_failure_def)
  have 4: "i < length (pending s) \<and> pending s ! i = AwaitResume v a \<and> v \<noteq> narrationVersion s \<longrightarrow>
            narration_step (ResumeSettled e i ok) s
              = s\<lparr>pending := remove_nth i (pending s), isPlayingNarration := False\<rparr>"
    by (simp add: after_resume_def)
  have 5: "sid < length (started s) \<and> sid \<notin> set (endedSources s)
            \<and> fst (started s ! sid) \<noteq> narrationVersion s \<longrightarrow>
            narration_step (SourceEnded e sid) s
              = s\<lparr>endedSources := sid # endedSources s, isPlayingNarration := False,
                   currentNarrationSource :=
                     (if currentNarrationSource s = Some sid then None else currentNarrationSource s)\<rparr>"
    by (simp add: on_ended_def Let_def)
  from 1 2 3 4 5 show ?thesis unfolding s1_def by (intro conjI)
qed

text \<open>
  Two calls in a row, then the decodes settle and the source ends: only the item of the
  second call was started. The outdated invocation of the first call changes the flag
  and nothing else, for a pending decode, a pending resume and an ended source alike.
\<close>

theorem only_last_call_is_heard_witness:
  "[PlaySequence quiet_audio [''a1'', ''a2''], PlayOne quiet_audio ''b''] \<noteq> []
   \<and> is_call (PlaySequence quiet_audio [''a1'', ''a2'']) \<and> is_call (PlayOne quiet_audio ''b'')
   \<and> \<not> is_call (DecodeSettled quiet_audio 0 True) \<and> \<not> is_call (SourceEnded quiet_audio 0)
   \<and> started (narration_run [DecodeSettled quiet_audio 0 True, DecodeSettled quiet_audio 0 True, SourceEnded quiet_audio 0]
        (narration_run [PlaySequence quiet_audio [''a1'', ''a2''], PlayOne quiet_audio ''b'']
          (narration_run [] initialNarration))) = [(2, ''b'')]
   \<and> (\<exists>new. started (narration_run [DecodeSettled quiet_audio 0 True, DecodeSettled quiet_audio 0 True, SourceEnded quiet_audio 0]
        (narration_run [PlaySequence quiet_audio [''a1'', ''a2''], PlayOne quiet_audio ''b'']
          (narration_run [] initialNarration))) = started (narration_run [] initialNarration) @ new
        \<and> (\<forall>(v, a) \<in> set new. v = narrationVersion (narration_run [] initialNarration) + 2 \<and> a \<in> set [''b'']))
   \<and> narrationVersion (narration_run [PlaySequence quiet_audio [''a1'', ''a2''], PlayOne quiet_audio ''b'']
          (narration_run [] initialNarration)) = 2
   \<and> pending (narration_run [PlaySequence quiet_audio [''a1'', ''a2''], PlayOne quiet_audio ''b''] initialNarration) ! 0
       = AwaitDecode 1 ''a1''
   \<and> narration_step (DecodeSettled quiet_audio 0 True)
        (narration_run [PlaySequence quiet_audio [''a1'', ''a2''], PlayOne quiet_audio ''b''] initialNarration)
       = (narration_run [PlaySequence quiet_audio [''a1'', ''a2''], PlayOne quiet_audio ''b''] initialNarration)
           \<lparr>pending := [AwaitDecode 2 ''b''], isPlayingNarration := False\<rparr>
   \<and> pending (narration_run [PlaySequence suspended_audio [''a1'', ''a2''], PlayOne suspended_audio ''b''] initialNarration) ! 0
       = AwaitResume 1 ''a1''
   \<and> narration_step (ResumeSettled suspended_audio 0 True)
        (narration_run [PlaySequence suspended_audio [''a1'', ''a2''], PlayOne suspended_audio ''b''] initialNarration)
       = (narration_run [PlaySequence suspended_audio [''a1'', ''a2''], PlayOne suspended_audio ''b''] initialNarration)
           \<lparr>pending := [AwaitResume 2 ''b''], isPlayingNarration := False\<rparr>
   \<and> started (narration_run [PlayOne quiet_audio ''a'', DecodeSettled quiet_audio 0 True, PlayOne quiet_audio ''b''] initialNarration)
       = [(1, ''a'')]
   \<and> narration_step (SourceEnded quiet_audio 0)
        (narration_run [PlayOne quiet_audio ''a'', DecodeSettled quiet_audio 0 True, PlayOne quiet_audio ''b''] initialNarration)
       = (narration_run [PlayOne quiet_audio ''a'', DecodeSettled quiet_audio 0 True, PlayOne quiet_audio ''b''] initialNarration)
           \<lparr>endedSources := [0], isPlayingNarration := False\<rparr>"
proof -
  let ?calls = "[PlaySequence quiet_audio [''a1'', ''a2''], PlayOne quiet_audio ''b'']"
  let ?later = "[DecodeSettled quiet_audio 0 True, DecodeSettled quiet_audio 0 True, SourceEnded quiet_audio 0]"
  let ?s = "narration_run ?calls initialNarration"
  let ?r = "narration_run [PlaySequence suspended_audio [''a1'', ''a2''], PlayOne suspended_audio ''b''] initialNarration"
  let ?q = "narration_run [PlayOne quiet_audio ''a'', DecodeSettled quiet_audio 0 True, PlayOne quiet_audio ''b''] initialNarration"
  have h1: "?calls \<noteq> []" and h2: "\<forall>c \<in> set ?calls. is_call c" and h3: "\<forall>ev \<in> set ?later. \<not> is_call ev"
    by simp_all
  note a = only_last_call_is_heard [OF h1 h2 h3, of "[]" 0 ?s 1 "''a1''" quiet_audio True 0]
  note b = only_last_call_is_heard [OF h1 h2 h3, of "[]" 0 ?r 1 "''a1''" suspended_audio True 0]
  note c = only_last_call_is_heard [OF h1 h2 h3, of "[]" 0 ?q 1 "''a1''" quiet_audio True 0]
  have e1: "started (narration_run ?later (narration_run ?calls (narration_run [] initialNarration))) = [(2, ''b'')]"
    by code_simp
  have e2: "pending ?s = [AwaitDecode 1 ''a1'', AwaitDecode 2 ''b'']" "narrationVersion ?s = 2"
    by code_simp+
  have e3: "pending ?r = [AwaitResume 1 ''a1'', AwaitResume 2 ''b'']" "narrationVersion ?r = 2"
    by code_simp+
  have e4: "started ?q = [(1, ''a'')]" "narrationVersion ?q = 2" "endedSources ?q = []"
    "currentNarrationSource ?q = None"
    by code_simp+
  have 1: "(\<exists>new. started (narration_run ?later (narration_run ?calls (narration_run [] initialNarration)))
                = started (narration_run [] initialNarration) @ new
        \<and> (\<forall>(v, a) \<in> set new. v = narrationVersion (narration_run [] initialNarration) + 2 \<and> a \<in> set [''b'']))
      \<and> narrationVersion (narration_run ?calls (narration_run [] initialNarration)) = 2"
    using a by (simp add: narration_run_def initialNarration_def)
  have 2: "narration_step (DecodeSettled quiet_audio 0 True) ?s
             = ?s\<lparr>pending := [AwaitDecode 2 ''b''], isPlayingNarration := False\<rparr>"
    using a e2 by (simp add: remove_nth_def)
  have 3: "narration_step (ResumeSettled suspended_audio 0 True) ?r
             = ?r\<lparr>pending := [AwaitResume 2 ''b''], isPlayingNarration := False\<rparr>"
    using b e3 by (simp add: remove_nth_def)
  have 4: "narration_step (SourceEnded quiet_audio 0) ?q
             = ?q\<lparr>endedSources := [0], isPlayingNarration := False\<rparr>"
    using c e4 by simp
  show ?thesis
    using 1 2 3 4 e1 e2 e3 e4 by simp
qed

text \<open>
  The abort on a version mismatch does change playback state: while the item of the
  second call is still being decoded, the outdated invocation of the first call sets the
  playing flag from true to false.
\<close>

theorem stale_abort_counterexample:
  "isPlayingNarration (narration_run [PlaySequence quiet_audio [''a''], PlaySequence quiet_audio [''b'']] initialNarration) = True
   \<and> pending (narration_run [PlaySequence quiet_audio [''a''], PlaySequence quiet_audio [''b'']] initialNarration)
       = [AwaitDecode 1 ''a'', AwaitDecode 2 ''b'']
   \<and> narrationVersion (narration_run [PlaySequence quiet_audio [''a''], PlaySequence quiet_audio [''b'']] initialNarration) = 2
   \<and> isPlayingNarration (narration_run [PlaySequence quiet_audio [''a''], PlaySequence quiet_audio [''b''],
         DecodeSettled quiet_audio 0 True] initialNarration) = False
   \<and> pending (narration_run [PlaySequence quiet_audio [''a''], PlaySequence quiet_audio [''b''],
         DecodeSettled quiet_audio 0 True] initialNarration) = [AwaitDecode 2 ''b'']"
  by code_simp

text \<open>
  Claim C6. For non-empty payloads a, b, c on a working platform: a plays, b's decode
  fails (the promise rejects, or the synchronous decode throws), and c is decoded next
  and plays; the started sources are a and c. In any state with a context, a failed
  decode of the current version puts the next queued item in flight.
\<close>

theorem decode_failure_skips_item:
  assumes "a \<noteq> []" "b \<noteq> []" "c \<noteq> []"
    and "ctor_ok e" "\<not> suspended e" "start_ok e" "decode_ok e a" "decode_ok e c"
  shows "(decode_ok e b \<longrightarrow>
           started (narration_run [PlaySequence e [a, b, c], DecodeSettled e 0 True, SourceEnded e 0,
                                   DecodeSettled e 0 False] initialNarration) = [(1, a)]
           \<and> pending (narration_run [PlaySequence e [a, b, c], DecodeSettled e 0 True, SourceEnded e 0,
                                   DecodeSettled e 0 False] initialNarration) = [AwaitDecode 1 c]
           \<and> started (narration_run [PlaySequence e [a, b, c], DecodeSettled e 0 True, SourceEnded e 0,
                                   DecodeSettled e 0 False, DecodeSettled e 0 True] initialNarration)
               = [(1, a), (1, c)])
       \<and> (\<not> decode_ok e b \<longrightarrow>
           pending (narration_run [PlaySequence e [a, b, c], DecodeSettled e 0 True, SourceEnded e 0]
                      initialNarration) = [AwaitDecode 1 c]
           \<and> started (narration_run [PlaySequence e [a, b, c], DecodeSettled e 0 True, SourceEnded e 0,
                                   DecodeSettled e 0 True] initialNarration)
               = [(1, a), (1, c)])
       \<and> (i < length (pending s) \<and> pending s ! i = AwaitDecode (narrationVersion s) x
            \<and> narrationQueue s = c # rest \<and> narrationAudioContext s \<longrightarrow>
           narration_step (DecodeSettled e i False) s
             = s\<lparr>narrationQueue := rest, isPlayingNarration := True,
                  pending := remove_nth i (pending s) @ [AwaitDecode (narrationVersion s) c]\<rparr>)"
proof -
  have 1: "decode_ok e b \<longrightarrow>
           started (narration_run [PlaySequence e [a, b, c], DecodeSettled e 0 True, SourceEnded e 0,
                                   DecodeSettled e 0 False] initialNarration) = [(1, a)]
           \<and> pending (narration_run [PlaySequence e [a, b, c], DecodeSettled e 0 True, SourceEnded e 0,
                                   DecodeSettled e 0 False] initialNarration) = [AwaitDecode 1 c]
           \<and> started (narration_run [PlaySequence e [a, b, c], DecodeSettled e 0 True, SourceEnded e 0,
                                   DecodeSettled e 0 False, DecodeSettled e 0 True] initialNarration)
               = [(1, a), (1, c)]"
    using assms
    by (simp add: narration_run_def playNarrationSequence_def stopNarration_def initialNarration_def
        processNarrationQueue.simps after_decode_def on_ended_def on_play_failure_def remove_nth_def Let_def)
  have 2: "\<not> decode_ok e b \<longrightarrow>
           pending (narration_run [PlaySequence e [a, b, c], DecodeSettled e 0 True, SourceEnded e 0]
                      initialNarration) = [AwaitDecode 1 c]
           \<and> started (narration_run [PlaySequence e [a, b, c], DecodeSettled e 0 True, SourceEnded e 0,
                                   DecodeSettled e 0 True] initialNarration)
               = [(1, a), (1, c)]"
    using assms
    by (simp add: narration_run_def playNarrationSequence_def stopNarration_def initialNarration_def
        processNarrationQueue.simps after_decode_def on_ended_def on_play_failure_def remove_nth_def Let_def)
  have 3: "narration_step (DecodeSettled e i False) s
             = s\<lparr>narrationQueue := rest, isPlayingNarration := True,
                  pending := remove_nth i (pending s) @ [AwaitDecode (narrationVersion s) c]\<rparr>"
    if h: "i < length (pending s)" "pending s ! i = AwaitDecode (narrationVersion s) x"
      "narrationQueue s = c # rest" "narrationAudioContext s"
  proof -
    let ?s' = "s\<lparr>pending := remove_nth i (pending s), isPlayingNarration := False\<rparr>"
    have ns: "\<not> skip_item e ?s'" using assms(8) h(3) by (simp add: skip_item_def)
    have "narration_step (DecodeSettled e i False) s = processNarrationQueue e ?s'"
      using h(1,2) by (simp add: on_play_failure_def)
    also have "\<dots> = s\<lparr>narrationQueue := rest, isPlayingNarration := True,
                  pending := remove_nth i (pending s) @ [AwaitDecode (narrationVersion s) c]\<rparr>"
      unfolding pnq_stop [OF ns] using assms(3,5) h(3,4) by simp
    finally show ?thesis .
  qed
  from 1 2 3 show ?thesis by blast
qed

text \<open>The scenario for concrete payloads, with a rejecting promise and with a throwing decode.\<close>

theorem decode_failure_skips_item_witness:
  "''a'' \<noteq> [] \<and> ''b'' \<noteq> [] \<and> ''c'' \<noteq> []
   \<and> ctor_ok quiet_audio \<and> \<not> suspended quiet_audio \<and> start_ok quiet_audio
   \<and> decode_ok quiet_audio ''a'' \<and> decode_ok quiet_audio ''b'' \<and> decode_ok quiet_audio ''c''
   \<and> started (narration_run [PlaySequence quiet_audio [''a'', ''b'', ''c''], DecodeSettled quiet_audio 0 True,
        SourceEnded quiet_audio 0, DecodeSettled quiet_audio 0 False, DecodeSettled quiet_audio 0 True]
        initialNarration) = [(1, ''a''), (1, ''c'')]
   \<and> ctor_ok picky_audio \<and> \<not> suspended picky_audio \<and> start_ok picky_audio
   \<and> decode_ok picky_audio ''a'' \<and> \<not> decode_ok picky_audio ''b'' \<and> decode_ok picky_audio ''c''
   \<and> started (narration_run [PlaySequence picky_audio [''a'', ''b'', ''c''], DecodeSettled picky_audio 0 True,
        SourceEnded picky_audio 0, DecodeSettled picky_audio 0 True] initialNarration)
       = [(1, ''a''), (1, ''c'')]
   \<and> pending (narration_run [PlaySequence quiet_audio [''a'', ''b'', ''c''], DecodeSettled quiet_audio 0 True,
        SourceEnded quiet_audio 0] initialNarration) ! 0 = AwaitDecode 1 ''b''
   \<and> narrationQueue (narration_run [PlaySequence quiet_audio [''a'', ''b'', ''c''], DecodeSettled quiet_audio 0 True,
        SourceEnded quiet_audio 0] initialNarration) = [''c'']
   \<and> pending (narration_step (DecodeSettled quiet_audio 0 False)
        (narration_run [PlaySequence quiet_audio [''a'', ''b'', ''c''], DecodeSettled quiet_audio 0 True,
           SourceEnded quiet_audio 0] initialNarration)) = [AwaitDecode 1 ''c'']"
proof -
  let ?s = "narration_run [PlaySequence quiet_audio [''a'', ''b'', ''c''], DecodeSettled quiet_audio 0 True,
              SourceEnded quiet_audio 0] initialNarration"
  have q: "ctor_ok quiet_audio" "\<not> suspended quiet_audio" "start_ok quiet_audio"
    "decode_ok quiet_audio ''a''" "decode_ok quiet_audio ''b''" "decode_ok quiet_audio ''c''"
    by (simp_all add: quiet_audio_def)
  have p: "ctor_ok picky_audio" "\<not> suspended picky_audio" "start_ok picky_audio"
    "decode_ok picky_audio ''a''" "\<not> decode_ok picky_audio ''b''" "decode_ok picky_audio ''c''"
    by (simp_all add: picky_audio_def quiet_audio_def)
  have n: "''a'' \<noteq> []" "''b'' \<noteq> []" "''c'' \<noteq> []" by simp_all
  note w1 = decode_failure_skips_item [OF n q(1,2,3,4,6), of 0 ?s "''b''" "[]"]
  note w2 = decode_failure_skips_item [OF n p(1,2,3,4,6), of 0 ?s "''b''" "[]"]
  have e: "pending ?s = [AwaitDecode 1 ''b'']" "narrationQueue ?s = [''c'']"
    "narrationVersion ?s = 1" "narrationAudioContext ?s"
    by code_simp+
  have 1: "started (narration_run [PlaySequence quiet_audio [''a'', ''b'', ''c''], DecodeSettled quiet_audio 0 True,
        SourceEnded quiet_audio 0, DecodeSettled quiet_audio 0 False, DecodeSettled quiet_audio 0 True]
        initialNarration) = [(1, ''a''), (1, ''c'')]"
    using w1 q(5) by blast
  have 2: "started (narration_run [PlaySequence picky_audio [''a'', ''b'', ''c''], DecodeSettled picky_audio 0 True,
        SourceEnded picky_audio 0, DecodeSettled picky_audio 0 True] initialNarration)
       = [(1, ''a''), (1, ''c'')]"
    using w2 p(5) by blast
  have "narration_step (DecodeSettled quiet_audio 0 False) ?s
             = ?s\<lparr>narrationQueue := [], isPlayingNarration := True,
                  pending := remove_nth 0 (pending ?s) @ [AwaitDecode (narrationVersion ?s) ''c'']\<rparr>"
    using w1 e by simp
  then have 3: "pending (narration_step (DecodeSettled quiet_audio 0 False) ?s) = [AwaitDecode 1 ''c'']"
    using e by (simp add: remove_nth_def)
  show ?thesis
    using n q p 1 2 3 e by simp
qed

lemma stopped_step:
  assumes "drain_stopped s" "\<not> is_call ev"
  shows "drain_stopped (narration_step ev s) \<and> narrationQueue (narration_step ev s) = narrationQueue s
       \<and> started (narration_step ev s) = started s
       \<and> narrationVersion (narration_step ev s) = narrationVersion s"
proof (cases ev)
  case (ResumeSettled e i ok)
  show ?thesis
  proof (cases "i < length (pending s)")
    case True
    then have m: "pending s ! i \<in> set (pending s)" by simp
    show ?thesis
    proof (cases "pending s ! i")
      case (AwaitResume v a)
      then have "v \<noteq> narrationVersion s" using assms(1) m by (auto simp: drain_stopped_def)
      then have "narration_step ev s = s\<lparr>pending := remove_nth i (pending s), isPlayingNarration := False\<rparr>"
        using True AwaitResume by (simp add: ResumeSettled after_resume_def)
      then show ?thesis
        using assms(1) set_remove_nth [of i "pending s"] by (auto simp: drain_stopped_def)
    next
      case (AwaitDecode v a)
      then show ?thesis using True assms(1) by (simp add: ResumeSettled)
    qed
  next
    case False
    then show ?thesis using assms(1) by (simp add: ResumeSettled)
  qed
next
  case (DecodeSettled e i ok)
  show ?thesis
  proof (cases "i < length (pending s)")
    case True
    then have m: "pending s ! i \<in> set (pending s)" by simp
    show ?thesis
    proof (cases "pending s ! i")
      case (AwaitDecode v a)
      then have "v \<noteq> narrationVersion s" using assms(1) m by (auto simp: drain_stopped_def)
      then have "narration_step ev s = s\<lparr>pending := remove_nth i (pending s), isPlayingNarration := False\<rparr>"
        using True AwaitDecode by (simp add: DecodeSettled after_decode_def on_play_failure_def)
      then show ?thesis
        using assms(1) set_remove_nth [of i "pending s"] by (auto simp: drain_stopped_def)
    next
      case (AwaitResume v a)
      then show ?thesis using True assms(1) by (simp add: DecodeSettled)
    qed
  next
    case False
    then show ?thesis using assms(1) by (simp add: DecodeSettled)
  qed
next
  case (SourceEnded e sid)
  show ?thesis
  proof (cases "sid < length (started s) \<and> sid \<notin> set (endedSources s)")
    case True
    then have "fst (started s ! sid) \<noteq> narrationVersion s"
      using assms(1) by (auto simp: drain_stopped_def)
    then have "narration_step ev s
                 = s\<lparr>endedSources := sid # endedSources s, isPlayingNarration := False,
                      currentNarrationSource :=
                        (if currentNarrationSource s = Some sid then None else currentNarrationSource s)\<rparr>"
      using True by (simp add: SourceEnded on_ended_def Let_def)
    then show ?thesis using assms(1) by (simp add: drain_stopped_def)
  next
    case False
    then show ?thesis using assms(1) by (auto simp: SourceEnded)
  qed
qed (use assms(2) in simp_all)

lemma stopped_run:
  assumes "drain_stopped s" "\<forall>ev \<in> set evs. \<not> is_call ev"
  shows "narrationQueue (narration_run evs s) = narrationQueue s
       \<and> started (narration_run evs s) = started s"
  using assms unfolding narration_run_def
proof (induction evs arbitrary: s)
  case Nil
  then show ?case by simp
next
  case (Cons ev evs)
  then have "drain_stopped (narration_step ev s)" "narrationQueue (narration_step ev s) = narrationQueue s"
    "started (narration_step ev s) = started s"
    using stopped_step [of s ev] by simp_all
  then show ?case using Cons.IH [of "narration_step ev s"] Cons.prems(2) by simp
qed

lemma step_sources_bounded:
  assumes "versions_bounded s" "sources_bounded s"
  shows "sources_bounded (narration_step ev s)"
proof (cases "is_call ev")
  case True
  then show ?thesis using assms(2) by (auto simp: sources_bounded_def call_started call_version le_SucI)
next
  case False
  note d = cancel_invD [OF step_inv [OF bounded_inv [OF assms(1)] False]]
  from d(4) obtain new where n: "started (narration_step ev s) = started s @ new"
    "\<forall>(v, a) \<in> set new. v = narrationVersion s" by auto
  show ?thesis
    unfolding sources_bounded_def
  proof (intro allI impI)
    fix i assume i: "i < length (started (narration_step ev s))"
    show "fst (started (narration_step ev s) ! i) \<le> narrationVersion (narration_step ev s)"
    proof (cases "i < length (started s)")
      case True
      then show ?thesis using assms(2) d(1) by (simp add: n(1) nth_append sources_bounded_def)
    next
      case False
      then have "started (narration_step ev s) ! i \<in> set new"
        using i by (simp add: n(1) nth_append)
      then show ?thesis using n(2) d(1) by auto
    qed
  qed
qed

lemma run_all_bounded:
  "versions_bounded s \<Longrightarrow> sources_bounded s \<Longrightarrow>
   versions_bounded (narration_run evs s) \<and> sources_bounded (narration_run evs s)"
  unfolding narration_run_def
  by (induction evs arbitrary: s) (simp_all add: step_bounded step_sources_bounded)

lemma initial_bounded: "versions_bounded initialNarration \<and> sources_bounded initialNarration"
  by (simp add: versions_bounded_def sources_bounded_def initialNarration_def)

lemma stop_drain_stopped:
  assumes "versions_bounded s" "sources_bounded s"
  shows "drain_stopped ((stopNarration s)\<lparr>narrationQueue := q\<rparr>)"
  using assms
  by (fastforce simp: drain_stopped_def versions_bounded_def sources_bounded_def stopNarration_def)

text \<open>
  Claim C7, evaluated. In any reachable state, a call with a non-empty first item on a
  suspended context leaves one invocation waiting for the resume. When the resume fails
  that invocation clears the playing flag and returns without calling
  \<open>processNarrationQueue\<close>: the remaining items stay in the queue and, whatever events
  follow other than a new call, the queue keeps them and no source is started. The next
  item is not attempted.
\<close>

theorem resume_failure_stops_drain:
  assumes "a \<noteq> []" "suspended e" "narrationAudioContext (narration_run earlier initialNarration) \<or> ctor_ok e"
    and "\<forall>ev \<in> set later. \<not> is_call ev"
  shows "(i < length (pending s) \<and> pending s ! i = AwaitResume v x \<longrightarrow>
            narration_step (ResumeSettled e' i False) s
              = s\<lparr>pending := remove_nth i (pending s), isPlayingNarration := False\<rparr>)
       \<and> pending (narration_step (PlaySequence e (a # rest)) (narration_run earlier initialNarration))
           = pending (narration_run earlier initialNarration)
             @ [AwaitResume (narrationVersion (narration_run earlier initialNarration) + 1) a]
       \<and> narration_step (ResumeSettled e' (length (pending (narration_run earlier initialNarration))) False)
           (narration_step (PlaySequence e (a # rest)) (narration_run earlier initialNarration))
           = (stopNarration (narration_run earlier initialNarration))
               \<lparr>narrationQueue := rest, narrationAudioContext := True\<rparr>
       \<and> narrationQueue (narration_run later
           (narration_step (ResumeSettled e' (length (pending (narration_run earlier initialNarration))) False)
             (narration_step (PlaySequence e (a # rest)) (narration_run earlier initialNarration)))) = rest
       \<and> started (narration_run later
           (narration_step (ResumeSettled e' (length (pending (narration_run earlier initialNarration))) False)
             (narration_step (PlaySequence e (a # rest)) (narration_run earlier initialNarration))))
           = started (narration_run earlier initialNarration)"
proof -
  define s1 where "s1 = narration_run earlier initialNarration"
  define s0 where "s0 = (stopNarration s1)\<lparr>narrationQueue := a # rest\<rparr>"
  define s2 where "s2 = narration_step (PlaySequence e (a # rest)) s1"
  define s3 where "s3 = narration_step (ResumeSettled e' (length (pending s1)) False) s2"
  have b: "versions_bounded s1" "sources_bounded s1"
    using run_all_bounded [of initialNarration earlier] initial_bounded by (simp_all add: s1_def)
  have ns: "\<not> skip_item e s0" using assms(2) by (simp add: skip_item_def)
  have s2: "s2 = s0\<lparr>narrationQueue := rest, isPlayingNarration := True, narrationAudioContext := True,
                    pending := pending s1 @ [AwaitResume (narrationVersion s1 + 1) a]\<rparr>"
    unfolding s2_def narration_step.simps playNarrationSequence_def s0_def [symmetric] pnq_stop [OF ns]
    using assms(1,2,3) by (simp add: s0_def s1_def stopNarration_def)
  have p2: "pending s2 = pending s1 @ [AwaitResume (narrationVersion s1 + 1) a]"
    by (simp add: s2)
  have s3: "s3 = (stopNarration s1)\<lparr>narrationQueue := rest, narrationAudioContext := True\<rparr>"
    unfolding s3_def by (simp add: p2 remove_nth_def) (simp add: s2 s0_def stopNarration_def)
  have "drain_stopped ((stopNarration s1)\<lparr>narrationQueue := rest\<rparr>)"
    by (rule stop_drain_stopped [OF b])
  then have d: "drain_stopped s3"
    by (simp add: s3 drain_stopped_def)
  have q: "narrationQueue s3 = rest" "started s3 = started s1"
    by (simp_all add: s3 stopNarration_def)
  have one: "i < length (pending s) \<and> pending s ! i = AwaitResume v x \<longrightarrow>
            narration_step (ResumeSettled e' i False) s
              = s\<lparr>pending := remove_nth i (pending s), isPlayingNarration := False\<rparr>"
    by simp
  from stopped_run [OF d assms(4)] q p2 s3 one
  show ?thesis
    unfolding s3_def s2_def s1_def by simp
qed

text \<open>
  While the welcome audio plays, a queue of two items arrives on a suspended context
  and the resume fails: the second item stays queued and only the welcome audio was
  ever started.
\<close>

theorem resume_failure_stops_drain_witness:
  "''a'' \<noteq> [] \<and> suspended suspended_audio \<and> ctor_ok suspended_audio
   \<and> \<not> is_call (SourceEnded quiet_audio 0) \<and> \<not> is_call (ResumeSettled quiet_audio 0 True)
   \<and> \<not> is_call (DecodeSettled quiet_audio 0 True)
   \<and> pending (narration_run [PlayOne quiet_audio ''w'', DecodeSettled quiet_audio 0 True] initialNarration) = []
   \<and> pending (narration_step (PlaySequence suspended_audio [''a'', ''b''])
        (narration_run [PlayOne quiet_audio ''w'', DecodeSettled quiet_audio 0 True] initialNarration))
       = [AwaitResume 2 ''a'']
   \<and> narrationQueue (narration_run [SourceEnded quiet_audio 0, ResumeSettled quiet_audio 0 True,
          DecodeSettled quiet_audio 0 True]
        (narration_step (ResumeSettled suspended_audio 0 False)
          (narration_step (PlaySequence suspended_audio [''a'', ''b''])
            (narration_run [PlayOne quiet_audio ''w'', DecodeSettled quiet_audio 0 True] initialNarration))))
       = [''b'']
   \<and> started (narration_run [SourceEnded quiet_audio 0, ResumeSettled quiet_audio 0 True,
          DecodeSettled quiet_audio 0 True]
        (narration_step (ResumeSettled suspended_audio 0 False)
          (narration_step (PlaySequence suspended_audio [''a'', ''b''])
            (narration_run [PlayOne quiet_audio ''w'', DecodeSettled quiet_audio 0 True] initialNarration))))
       = [(1, ''w'')]
   \<and> narration_step (ResumeSettled suspended_audio 0 False)
        (narration_step (PlaySequence suspended_audio [''a'', ''b''])
          (narration_run [PlayOne quiet_audio ''w'', DecodeSettled quiet_audio 0 True] initialNarration))
       = (narration_step (PlaySequence suspended_audio [''a'', ''b''])
          (narration_run [PlayOne quiet_audio ''w'', DecodeSettled quiet_audio 0 True] initialNarration))
           \<lparr>pending := [], isPlayingNarration := False\<rparr>"
proof -
  let ?s1 = "narration_run [PlayOne quiet_audio ''w'', DecodeSettled quiet_audio 0 True] initialNarration"
  let ?s2 = "narration_step (PlaySequence suspended_audio [''a'', ''b'']) ?s1"
  let ?later = "[SourceEnded quiet_audio 0, ResumeSettled quiet_audio 0 True, DecodeSettled quiet_audio 0 True]"
  have h1: "''a'' \<noteq> []" by simp
  have h2: "suspended suspended_audio" and h2': "ctor_ok suspended_audio"
    by (simp_all add: suspended_audio_def quiet_audio_def)
  have h3: "narrationAudioContext ?s1 \<or> ctor_ok suspended_audio" using h2' by simp
  have h4: "\<forall>ev \<in> set ?later. \<not> is_call ev" by simp
  have e: "pending ?s1 = []" "narrationVersion ?s1 = 1" "started ?s1 = [(1, ''w'')]"
    by code_simp+
  have e2: "pending ?s2 = [AwaitResume 2 ''a'']" by code_simp
  note w = resume_failure_stops_drain [OF h1 h2 h3 h4, of 0 ?s2 2 "''a''" suspended_audio "[''b'']",
      unfolded e(1) list.size(3)]
  have "narrationQueue (narration_run ?later (narration_step (ResumeSettled suspended_audio 0 False) ?s2)) = [''b'']
      \<and> started (narration_run ?later (narration_step (ResumeSettled suspended_audio 0 False) ?s2)) = started ?s1"
    using w by blast
  then have 1: "narrationQueue (narration_run ?later (narration_step (ResumeSettled suspended_audio 0 False) ?s2)) = [''b'']"
    and 2: "started (narration_run ?later (narration_step (ResumeSettled suspended_audio 0 False) ?s2)) = [(1, ''w'')]"
    unfolding e(3) by blast+
  have pre: "0 < length (pending ?s2) \<and> pending ?s2 ! 0 = AwaitResume 2 ''a''"
    unfolding e2 by simp
  have "0 < length (pending ?s2) \<and> pending ?s2 ! 0 = AwaitResume 2 ''a'' \<longrightarrow>
          narration_step (ResumeSettled suspended_audio 0 False) ?s2
            = ?s2\<lparr>pending := remove_nth 0 (pending ?s2), isPlayingNarration := False\<rparr>"
    using w by blast
  with pre have "narration_step (ResumeSettled suspended_audio 0 False) ?s2
            = ?s2\<lparr>pending := remove_nth 0 (pending ?s2), isPlayingNarration := False\<rparr>"
    by blast
  moreover have "remove_nth 0 (pending ?s2) = []"
    unfolding e2 by (simp add: remove_nth_def)
  ultimately have 3: "narration_step (ResumeSettled suspended_audio 0 False) ?s2
             = ?s2\<lparr>pending := [], isPlayingNarration := False\<rparr>"
    by (simp only:)
  have 0: "\<not> is_call (SourceEnded quiet_audio 0)" "\<not> is_call (ResumeSettled quiet_audio 0 True)"
    "\<not> is_call (DecodeSettled quiet_audio 0 True)"
    by simp_all
  from h1 h2 h2' 0 e(1) e2 1 2 3 show ?thesis
    by (intro conjI)
qed

text \<open>
  The same on concrete payloads, next to the catch block of a failed decode, which does
  put the next item in flight.
\<close>

theorem resume_failure_strands_queue:
  "pending (narration_run [PlaySequence suspended_audio [''a'', ''b''], ResumeSettled suspended_audio 0 False]
      initialNarration) = []
   \<and> narrationQueue (narration_run [PlaySequence suspended_audio [''a'', ''b''], ResumeSettled suspended_audio 0 False]
      initialNarration) = [''b'']
   \<and> started (narration_run [PlaySequence suspended_audio [''a'', ''b''], ResumeSettled suspended_audio 0 False]
      initialNarration) = []
   \<and> isPlayingNarration (narration_run [PlaySequence suspended_audio [''a'', ''b''], ResumeSettled suspended_audio 0 False]
      initialNarration) = False
   \<and> started (narration_run [PlaySequence suspended_audio [''a'', ''b''], ResumeSettled suspended_audio 0 False,
        ResumeSettled quiet_audio 0 True, DecodeSettled quiet_audio 0 True, SourceEnded quiet_audio 0]
      initialNarration) = []
   \<and> pending (narration_run [PlaySequence quiet_audio [''a'', ''b''], DecodeSettled quiet_audio 0 False]
      initialNarration) = [AwaitDecode 1 ''b'']"
  by code_simp

section \<open>One turn\<close>

lemma turn_begin_accepted:
  assumes "accepted u s"
  shows "turn_begin u s =
           s\<lparr>welcomeAudioHandled := True, narration := stopNarration (narration s),
             isLoading := True,
             view := (view s)\<lparr>choices := JArray [],
                      chatHistory := currentChatHistory s @ [\<lparr>author = USER, msg_text = u\<rparr>]\<rparr>,
             turn := Some \<lparr>turn_input = u, turn_history = history s,
                           turn_historyIndex = historyIndex s,
                           turn_characterVoices = characterVoices s,
                           turn_chatHistory = currentChatHistory s @ [\<lparr>author = USER, msg_text = u\<rparr>],
                           turn_phase = AwaitSend\<rparr>\<rparr>"
  using assms by (simp add: turn_begin_def Let_def)

lemma turn_begin_facts:
  assumes "accepted u s"
  shows "isLoading (turn_begin u s)" "history (turn_begin u s) = history s"
    "historyIndex (turn_begin u s) = historyIndex s"
    "chatHistory (view (turn_begin u s)) = currentChatHistory s @ [\<lparr>author = USER, msg_text = u\<rparr>]"
    "characterVoices (turn_begin u s) = characterVoices s"
    "\<exists>t. turn (turn_begin u s) = Some t \<and> turn_phase t = AwaitSend \<and> turn_input t = u
         \<and> turn_history t = history s \<and> turn_historyIndex t = historyIndex s
         \<and> turn_characterVoices t = characterVoices s
         \<and> turn_chatHistory t = currentChatHistory s @ [\<lparr>author = USER, msg_text = u\<rparr>]"
  by (simp_all add: turn_begin_accepted [OF assms])

lemma turn_failed_facts:
  "history (turn_finally (turn_catch s)) = history s"
  "historyIndex (turn_finally (turn_catch s)) = historyIndex s"
  "chatHistory (view (turn_finally (turn_catch s))) = chatHistory (view s) @ [apologyMessage]"
  "isLoading (turn_finally (turn_catch s)) = False"
  "turn (turn_finally (turn_catch s)) = None"
  by (simp_all add: turn_finally_def turn_catch_def)

lemma turn_all_settled_idle: "turn s = None \<Longrightarrow> turn_all_settled E s = s"
  by (simp add: turn_all_settled_def)

lemma responded_throws:
  assumes "turn s = Some t" "turn_phase t = AwaitSend" "sendMessage E (turn_input t) = SendThrows"
  shows "turn_responded E s = turn_finally (turn_catch s)"
  using assms by (simp add: turn_responded_def)

lemma responded_undefined:
  assumes "turn s = Some t" "turn_phase t = AwaitSend" "sendMessage E (turn_input t) = SendResponse rt"
    "parse_response (json_parse E) rt = (None, c)"
  shows "turn_responded E s = turn_finally (turn_catch s)"
  using assms by (simp add: turn_responded_def)

lemma responded_story:
  assumes "turn s = Some t" "turn_phase t = AwaitSend" "sendMessage E (turn_input t) = SendResponse rt"
    "parse_response (json_parse E) rt = (Some storyText, c)"
  shows "turn_responded E s =
           s\<lparr>characterVoices :=
                newCharacterVoices (\<lambda>k. random E (k + 3)) (turn_characterVoices t) storyText,
              turn := Some (t\<lparr>turn_phase :=
                AwaitAll storyText c
                  (synthesis_requests (\<lambda>k. random E (k + 3)) (turn_characterVoices t) storyText)
                  (imagePrompt (random E) storyText)\<rparr>)\<rparr>"
  using assms by (simp add: turn_responded_def)

lemma all_settled_fails:
  assumes "turn s = Some t" "turn_phase t = AwaitAll storyText c requests prompt"
    "None \<in> set (map (\<lambda>(txt, voice). textToSpeech E txt voice) requests)"
  shows "turn_all_settled E s = turn_finally (turn_catch s)"
  using assms by (simp add: turn_all_settled_def Let_def del: set_map)

lemma all_settled_commits:
  assumes "turn s = Some t" "turn_phase t = AwaitAll storyText c requests prompt"
    "None \<notin> set (map (\<lambda>(txt, voice). textToSpeech E txt voice) requests)"
  shows "turn_all_settled E s =
           (if invocation_suspends (audio E)
                 ((stopNarration (narration s))
                    \<lparr>narrationQueue := map the (map (\<lambda>(txt, voice). textToSpeech E txt voice) requests)\<rparr>)
            then (committed E t storyText c requests prompt s)
                   \<lparr>turn := Some (t\<lparr>turn_phase := AwaitNarration (narrationVersion (narration s) + 1)\<rparr>)\<rparr>
            else turn_finally (committed E t storyText c requests prompt s))"
  using assms
  by (simp add: turn_all_settled_def committed_def Let_def commit_def sync_view_def stopNarration_def
      del: set_map)

lemma committed_history:
  "history (committed E t storyText c requests prompt s)
     = take (turn_historyIndex t + 1) (turn_history t)
       @ [\<lparr>chatHistory = turn_chatHistory t @ [\<lparr>author = MODEL, msg_text = storyText\<rparr>],
           imageUrl = Some (generateIllustration E prompt), choices = c\<rparr>]"
  "historyIndex (committed E t storyText c requests prompt s)
     = length (take (turn_historyIndex t + 1) (turn_history t))"
  "isLoading (committed E t storyText c requests prompt s) = isLoading s"
  "narration (committed E t storyText c requests prompt s)
     = playNarrationSequence (audio E)
         (map the (map (\<lambda>(txt, voice). textToSpeech E txt voice) requests)) (narration s)"
  by (simp_all add: committed_def Let_def commit_def sync_view_def)

lemma awaited_invocation:
  assumes "invocation_suspends e n"
  shows "\<exists>ev. \<not> is_call ev \<and> invocation_ends (narrationVersion n) ev (processNarrationQueue e n)"
proof -
  have ns: "\<not> skip_item e n" using assms by (auto simp: skip_item_def invocation_suspends_def)
  let ?task = "if suspended e then AwaitResume (narrationVersion n) (hd (narrationQueue n))
               else AwaitDecode (narrationVersion n) (hd (narrationQueue n))"
  have p: "pending (processNarrationQueue e n) = pending n @ [?task]"
    unfolding pnq_stop [OF ns] using assms by (auto simp: invocation_suspends_def)
  show ?thesis
  proof (cases "suspended e")
    case True
    have "invocation_ends (narrationVersion n) (ResumeSettled e (length (pending n)) False)
            (processNarrationQueue e n)"
      using True by (simp add: p)
    then show ?thesis by (intro exI [of _ "ResumeSettled e (length (pending n)) False"]) simp
  next
    case False
    have "invocation_ends (narrationVersion n) (DecodeSettled e (length (pending n)) True)
            (processNarrationQueue e n)"
      using False by (simp add: p)
    then show ?thesis by (intro exI [of _ "DecodeSettled e (length (pending n)) True"]) simp
  qed
qed

lemma ends_not_call: "invocation_ends V ev n \<Longrightarrow> \<not> is_call ev"
  by (cases ev) simp_all

lemma narration_ends_turn:
  assumes "turn s = Some t" "turn_phase t = AwaitNarration V" "invocation_ends V ev (narration s)"
  shows "on_narration_event ev s = turn_finally (s\<lparr>narration := narration_step ev (narration s)\<rparr>)"
  using assms ends_not_call [OF assms(3)] by (simp add: on_narration_event_def)

lemma narration_keeps_turn:
  assumes "turn s = Some t" "turn_phase t = AwaitNarration V" "\<not> invocation_ends V ev (narration s)"
  shows "isLoading (on_narration_event ev s) = isLoading s" "turn (on_narration_event ev s) = turn s"
    "history (on_narration_event ev s) = history s" "historyIndex (on_narration_event ev s) = historyIndex s"
  using assms by (simp_all add: on_narration_event_def)

lemma turn_outcome_cases:
  "turn_outcome E u s = Some GenerationFailed \<longleftrightarrow> sendMessage E u = SendThrows"
  "turn_outcome E u s = Some StoryTextUndefined \<longleftrightarrow>
     (\<exists>rt c. sendMessage E u = SendResponse rt \<and> parse_response (json_parse E) rt = (None, c))"
  "turn_outcome E u s = Some SynthesisFailed \<longleftrightarrow>
     (\<exists>rt storyText c. sendMessage E u = SendResponse rt
        \<and> parse_response (json_parse E) rt = (Some storyText, c)
        \<and> None \<in> set (map (\<lambda>(txt, voice). textToSpeech E txt voice)
              (synthesis_requests (\<lambda>k. random E (k + 3)) (characterVoices s) storyText)))"
  "turn_outcome E u s = None \<longleftrightarrow>
     (\<exists>rt storyText c. sendMessage E u = SendResponse rt
        \<and> parse_response (json_parse E) rt = (Some storyText, c)
        \<and> None \<notin> set (map (\<lambda>(txt, voice). textToSpeech E txt voice)
              (synthesis_requests (\<lambda>k. random E (k + 3)) (characterVoices s) storyText)))"
  by (auto simp: turn_outcome_def simp del: set_map split: send_result.splits prod.splits option.splits)

text \<open>
  The turns used as examples, from the initial state: the generation call rejects, every
  synthesis rejects, everything succeeds (the handler is then suspended on the decode of
  the narration), everything succeeds on a platform without an audio context (the
  narration call returns at once).
\<close>

lemma accepted_hi: "accepted ''hi'' initialApp"
  by code_simp

lemma mute_outcome: "turn_outcome mute_env ''hi'' initialApp = Some SynthesisFailed"
  by code_simp

lemma silent_outcome: "turn_outcome silent_env ''hi'' initialApp = Some GenerationFailed"
  by code_simp

lemma plain_outcome: "turn_outcome plain_env ''hi'' initialApp = None"
  by code_simp

lemma deaf_outcome: "turn_outcome deaf_env ''hi'' initialApp = None"
  by code_simp

lemma initial_facts:
  "history initialApp = [initialStoryState]" "historyIndex initialApp = 0"
  "currentChatHistory initialApp = [welcomeMessage]"
  by (simp_all add: initialApp_def currentChatHistory_def initialStoryState_def)

lemma plain_waits:
  "turn (handleSendMessage plain_env ''hi'' initialApp)
     = Some \<lparr>turn_input = ''hi'', turn_history = [initialStoryState], turn_historyIndex = 0,
             turn_characterVoices = [(''NARRATOR'', ''Kore'')],
             turn_chatHistory = [welcomeMessage, \<lparr>author = USER, msg_text = ''hi''\<rparr>],
             turn_phase = AwaitNarration 2\<rparr>"
  "pending (narration (handleSendMessage plain_env ''hi'' initialApp)) = [AwaitDecode 2 ''UklGRg=='']"
  by code_simp+

lemma deaf_done: "turn (handleSendMessage deaf_env ''hi'' initialApp) = None"
  by code_simp

text \<open>
  Claim C3. For an accepted input (not blank, no turn in flight, a session exists) the
  loading flag is set before the first await, and stays set, with the log and the cursor
  as they were, while the handler waits for the synthesis. When a step of the try block
  throws (the generation call, the story text being undefined, or the synthesis of any
  segment) the history log and the cursor are what they were, the visible chat is the
  chat of the current snapshot followed by the user's message and the fixed apology,
  and the finally block has cleared the flag and ended the turn. When none throws the
  log is its prefix up to the cursor followed by exactly one new snapshot, with the
  cursor on it, and either the narration call returned at once and the finally block
  has cleared the flag, or the handler is suspended on its narration call with the flag
  still set: then some event ends the awaited invocation, every event that ends it
  clears the flag and ends the turn without touching the log or the cursor, and every
  other event leaves the flag set and the log as it is.
\<close>

theorem turn_atomic:
  assumes "accepted u s"
  shows "isLoading (turn_begin u s) \<and> history (turn_begin u s) = history s
       \<and> historyIndex (turn_begin u s) = historyIndex s
       \<and> (turn_outcome E u s \<noteq> Some GenerationFailed \<and> turn_outcome E u s \<noteq> Some StoryTextUndefined \<longrightarrow>
            isLoading (turn_responded E (turn_begin u s))
            \<and> history (turn_responded E (turn_begin u s)) = history s
            \<and> historyIndex (turn_responded E (turn_begin u s)) = historyIndex s)
       \<and> (turn_outcome E u s \<noteq> None \<longrightarrow>
            history (handleSendMessage E u s) = history s
            \<and> historyIndex (handleSendMessage E u s) = historyIndex s
            \<and> chatHistory (view (handleSendMessage E u s))
                = currentChatHistory s @ [\<lparr>author = USER, msg_text = u\<rparr>, apologyMessage]
            \<and> isLoading (handleSendMessage E u s) = False
            \<and> turn (handleSendMessage E u s) = None)
       \<and> (turn_outcome E u s = None \<longrightarrow>
            (\<exists>snapshot. history (handleSendMessage E u s)
                          = take (historyIndex s + 1) (history s) @ [snapshot])
            \<and> historyIndex (handleSendMessage E u s) = length (take (historyIndex s + 1) (history s))
            \<and> (turn (handleSendMessage E u s) = None \<and> isLoading (handleSendMessage E u s) = False
                \<or> isLoading (handleSendMessage E u s)
                  \<and> (\<exists>t V. turn (handleSendMessage E u s) = Some t \<and> turn_phase t = AwaitNarration V
                       \<and> (\<exists>ev. invocation_ends V ev (narration (handleSendMessage E u s)))
                       \<and> (\<forall>ev. invocation_ends V ev (narration (handleSendMessage E u s)) \<longrightarrow>
                             isLoading (on_narration_event ev (handleSendMessage E u s)) = False
                             \<and> turn (on_narration_event ev (handleSendMessage E u s)) = None
                             \<and> history (on_narration_event ev (handleSendMessage E u s))
                                 = history (handleSendMessage E u s)
                             \<and> historyIndex (on_narration_event ev (handleSendMessage E u s))
                                 = historyIndex (handleSendMessage E u s))
                       \<and> (\<forall>ev. \<not> invocation_ends V ev (narration (handleSendMessage E u s)) \<longrightarrow>
                             isLoading (on_narration_event ev (handleSendMessage E u s))
                             \<and> turn (on_narration_event ev (handleSendMessage E u s))
                                 = turn (handleSendMessage E u s)
                             \<and> history (on_narration_event ev (handleSendMessage E u s))
                                 = history (handleSendMessage E u s)))))
       \<and> (sendMessage E u = SendThrows \<longrightarrow> turn_outcome E u s = Some GenerationFailed)
       \<and> (sendMessage E u = SendResponse None \<longrightarrow> turn_outcome E u s = Some StoryTextUndefined)
       \<and> (\<forall>rt storyText c txt voice.
            sendMessage E u = SendResponse rt
            \<and> parse_response (json_parse E) rt = (Some storyText, c)
            \<and> (txt, voice) \<in> set (synthesis_requests (\<lambda>k. random E (k + 3)) (characterVoices s) storyText)
            \<and> textToSpeech E txt voice = None
            \<longrightarrow> turn_outcome E u s = Some SynthesisFailed)"
proof -
  define s1 where "s1 = turn_begin u s"
  define h where "h = handleSendMessage E u s"
  note b = turn_begin_facts [OF assms, folded s1_def]
  from b(6) obtain t where t: "turn s1 = Some t" "turn_phase t = AwaitSend" "turn_input t = u"
    "turn_history t = history s" "turn_historyIndex t = historyIndex s"
    "turn_characterVoices t = characterVoices s"
    "turn_chatHistory t = currentChatHistory s @ [\<lparr>author = USER, msg_text = u\<rparr>]"
    by blast
  have h: "h = turn_all_settled E (turn_responded E s1)"
    using assms by (simp add: h_def handleSendMessage_def s1_def)
  have failed: "history (turn_finally (turn_catch s1)) = history s
      \<and> historyIndex (turn_finally (turn_catch s1)) = historyIndex s
      \<and> chatHistory (view (turn_finally (turn_catch s1)))
           = currentChatHistory s @ [\<lparr>author = USER, msg_text = u\<rparr>, apologyMessage]
      \<and> isLoading (turn_finally (turn_catch s1)) = False
      \<and> turn (turn_finally (turn_catch s1)) = None"
    using b by (simp add: turn_failed_facts)

  have bg: "isLoading s1 \<and> history s1 = history s \<and> historyIndex s1 = historyIndex s"
    using b by simp

  have resp: "isLoading (turn_responded E s1) \<and> history (turn_responded E s1) = history s
            \<and> historyIndex (turn_responded E s1) = historyIndex s"
    if o: "turn_outcome E u s \<noteq> Some GenerationFailed" "turn_outcome E u s \<noteq> Some StoryTextUndefined"
  proof -
    from o(1) obtain rt where rt: "sendMessage E u = SendResponse rt"
      using turn_outcome_cases(1) [of E u s] by (cases "sendMessage E u") auto
    obtain st c where p: "parse_response (json_parse E) rt = (st, c)"
      by (cases "parse_response (json_parse E) rt")
    from o(2) rt p obtain storyText where st: "st = Some storyText"
      using turn_outcome_cases(2) [of E u s] by (cases st) auto
    show ?thesis
      unfolding responded_story [OF t(1,2) rt [folded t(3)] p [unfolded st]]
      using b by simp
  qed

  have fail: "history h = history s \<and> historyIndex h = historyIndex s
            \<and> chatHistory (view h) = currentChatHistory s @ [\<lparr>author = USER, msg_text = u\<rparr>, apologyMessage]
            \<and> isLoading h = False \<and> turn h = None"
    if nz: "turn_outcome E u s \<noteq> None"
  proof -
    from nz obtain err where e: "turn_outcome E u s = Some err" by auto
    show ?thesis
    proof (cases err)
      case GenerationFailed
      then have "sendMessage E u = SendThrows" using e turn_outcome_cases(1) by simp
      then have "turn_responded E s1 = turn_finally (turn_catch s1)"
        using responded_throws [OF t(1,2)] t(3) by simp
      then have "h = turn_finally (turn_catch s1)"
        by (simp add: h turn_all_settled_idle turn_failed_facts)
      then show ?thesis using failed by simp
    next
      case StoryTextUndefined
      then obtain rt c where "sendMessage E u = SendResponse rt"
        "parse_response (json_parse E) rt = (None, c)"
        using e turn_outcome_cases(2) [of E u s] by blast
      then have "turn_responded E s1 = turn_finally (turn_catch s1)"
        using responded_undefined [OF t(1,2)] t(3) by simp
      then have "h = turn_finally (turn_catch s1)"
        by (simp add: h turn_all_settled_idle turn_failed_facts)
      then show ?thesis using failed by simp
    next
      case SynthesisFailed
      then obtain rt storyText c where rt: "sendMessage E u = SendResponse rt"
        and p: "parse_response (json_parse E) rt = (Some storyText, c)"
        and n: "None \<in> set (map (\<lambda>(txt, voice). textToSpeech E txt voice)
              (synthesis_requests (\<lambda>k. random E (k + 3)) (characterVoices s) storyText))"
        using e turn_outcome_cases(3) [of E u s] by blast
      define s2 where "s2 = turn_responded E s1"
      define t2 where "t2 = t\<lparr>turn_phase :=
                AwaitAll storyText c
                  (synthesis_requests (\<lambda>k. random E (k + 3)) (turn_characterVoices t) storyText)
                  (imagePrompt (random E) storyText)\<rparr>"
      have s2: "s2 = s1\<lparr>characterVoices :=
                newCharacterVoices (\<lambda>k. random E (k + 3)) (turn_characterVoices t) storyText,
              turn := Some t2\<rparr>"
        unfolding s2_def t2_def by (rule responded_story [OF t(1,2) rt [folded t(3)] p])
      have t2: "turn s2 = Some t2" by (simp add: s2)
      have ph: "turn_phase t2 = AwaitAll storyText c
                  (synthesis_requests (\<lambda>k. random E (k + 3)) (characterVoices s) storyText)
                  (imagePrompt (random E) storyText)"
        by (simp add: t2_def t(6))
      have "h = turn_finally (turn_catch s2)"
        unfolding h s2_def [symmetric] by (rule all_settled_fails [OF t2 ph n])
      then show ?thesis
        using b by (simp add: turn_failed_facts s2)
    qed
  qed

  have ok: "(\<exists>snapshot. history h = take (historyIndex s + 1) (history s) @ [snapshot])
            \<and> historyIndex h = length (take (historyIndex s + 1) (history s))
            \<and> (turn h = None \<and> isLoading h = False
                \<or> isLoading h
                  \<and> (\<exists>t V. turn h = Some t \<and> turn_phase t = AwaitNarration V
                       \<and> (\<exists>ev. invocation_ends V ev (narration h))
                       \<and> (\<forall>ev. invocation_ends V ev (narration h) \<longrightarrow>
                             isLoading (on_narration_event ev h) = False
                             \<and> turn (on_narration_event ev h) = None
                             \<and> history (on_narration_event ev h) = history h
                             \<and> historyIndex (on_narration_event ev h) = historyIndex h)
                       \<and> (\<forall>ev. \<not> invocation_ends V ev (narration h) \<longrightarrow>
                             isLoading (on_narration_event ev h)
                             \<and> turn (on_narration_event ev h) = turn h
                             \<and> history (on_narration_event ev h) = history h)))"
    if z: "turn_outcome E u s = None"
  proof -
    from z obtain rt storyText c where rt: "sendMessage E u = SendResponse rt"
      and p: "parse_response (json_parse E) rt = (Some storyText, c)"
      and n: "None \<notin> set (map (\<lambda>(txt, voice). textToSpeech E txt voice)
            (synthesis_requests (\<lambda>k. random E (k + 3)) (characterVoices s) storyText))"
      using z turn_outcome_cases(4) [of E u s] by blast
    define s2 where "s2 = turn_responded E s1"
    define reqs where "reqs = synthesis_requests (\<lambda>k. random E (k + 3)) (characterVoices s) storyText"
    define prompt where "prompt = imagePrompt (random E) storyText"
    define t2 where "t2 = t\<lparr>turn_phase := AwaitAll storyText c reqs prompt\<rparr>"
    have s2: "s2 = s1\<lparr>characterVoices :=
              newCharacterVoices (\<lambda>k. random E (k + 3)) (turn_characterVoices t) storyText,
            turn := Some t2\<rparr>"
      unfolding s2_def t2_def reqs_def prompt_def t(6) [symmetric]
      by (rule responded_story [OF t(1,2) rt [folded t(3)] p])
    have t2: "turn s2 = Some t2" by (simp add: s2)
    have ph: "turn_phase t2 = AwaitAll storyText c reqs prompt" by (simp add: t2_def)
    have n': "None \<notin> set (map (\<lambda>(txt, voice). textToSpeech E txt voice) reqs)"
      using n unfolding reqs_def .
    define k where "k = committed E t2 storyText c reqs prompt s2"
    define n0 where "n0 = (stopNarration (narration s2))
                    \<lparr>narrationQueue := map the (map (\<lambda>(txt, voice). textToSpeech E txt voice) reqs)\<rparr>"
    have hh: "h = (if invocation_suspends (audio E) n0
                   then k\<lparr>turn := Some (t2\<lparr>turn_phase := AwaitNarration (narrationVersion (narration s2) + 1)\<rparr>)\<rparr>
                   else turn_finally k)"
      unfolding h s2_def [symmetric] k_def n0_def by (rule all_settled_commits [OF t2 ph n'])
    have kh: "history k = take (historyIndex s + 1) (history s)
                @ [\<lparr>chatHistory = turn_chatHistory t2 @ [\<lparr>author = MODEL, msg_text = storyText\<rparr>],
                    imageUrl = Some (generateIllustration E prompt), choices = c\<rparr>]"
      and ki: "historyIndex k = length (take (historyIndex s + 1) (history s))"
      and kl: "isLoading k"
      and kn: "narration k = processNarrationQueue (audio E) n0"
      using b(1) by (simp_all add: k_def committed_history t2_def t(4,5) s2 n0_def playNarrationSequence_def)
    have 1: "\<exists>snapshot. history h = take (historyIndex s + 1) (history s) @ [snapshot]"
      and 2: "historyIndex h = length (take (historyIndex s + 1) (history s))"
      using kh ki by (simp_all add: hh turn_finally_def)
    show ?thesis
    proof (cases "invocation_suspends (audio E) n0")
      case False
      then have "turn h = None \<and> isLoading h = False" by (simp add: hh turn_finally_def)
      with 1 2 show ?thesis by blast
    next
      case True
      define V where "V = narrationVersion (narration s2) + 1"
      define t3 where "t3 = t2\<lparr>turn_phase := AwaitNarration V\<rparr>"
      have h3: "h = k\<lparr>turn := Some t3\<rparr>" using True by (simp add: hh t3_def V_def)
      have th: "turn h = Some t3" and ph3: "turn_phase t3 = AwaitNarration V"
        and lh: "isLoading h" and nh: "narration h = processNarrationQueue (audio E) n0"
        using kl kn by (simp_all add: h3 t3_def)
      have v0: "narrationVersion n0 = V" by (simp add: n0_def V_def stopNarration_def)
      have ex: "\<exists>ev. invocation_ends V ev (narration h)"
        using awaited_invocation [OF True] unfolding nh v0 by blast
      have fin: "isLoading (on_narration_event ev h) = False \<and> turn (on_narration_event ev h) = None
               \<and> history (on_narration_event ev h) = history h
               \<and> historyIndex (on_narration_event ev h) = historyIndex h"
        if "invocation_ends V ev (narration h)" for ev
        unfolding narration_ends_turn [OF th ph3 that] by (simp add: turn_finally_def)
      have keep: "isLoading (on_narration_event ev h) \<and> turn (on_narration_event ev h) = turn h
               \<and> history (on_narration_event ev h) = history h"
        if "\<not> invocation_ends V ev (narration h)" for ev
        using narration_keeps_turn [OF th ph3 that] lh by simp
      from 1 2 lh th ph3 ex fin keep show ?thesis by blast
    qed
  qed
  have c1: "sendMessage E u = SendThrows \<longrightarrow> turn_outcome E u s = Some GenerationFailed"
    by (simp add: turn_outcome_def)
  have c2: "sendMessage E u = SendResponse None \<longrightarrow> turn_outcome E u s = Some StoryTextUndefined"
    by (simp add: turn_outcome_def parse_response_def)
  have c3: "\<forall>rt storyText c txt voice.
            sendMessage E u = SendResponse rt
            \<and> parse_response (json_parse E) rt = (Some storyText, c)
            \<and> (txt, voice) \<in> set (synthesis_requests (\<lambda>k. random E (k + 3)) (characterVoices s) storyText)
            \<and> textToSpeech E txt voice = None
            \<longrightarrow> turn_outcome E u s = Some SynthesisFailed"
    by (force simp: turn_outcome_def)
  from bg resp fail ok c1 c2 c3 show ?thesis
    unfolding s1_def h_def by (intro conjI impI) blast+
qed

text \<open>
  All four cases occur from the initial state. With a rejected generation call or a
  rejected synthesis the log stays at its seed and the flag is cleared. With everything
  succeeding the log has two entries and the flag is still set while the narration is
  being decoded; the settling of the decode clears it, the end of a source does not.
  Without an audio context the flag is cleared right after the commit.
\<close>

theorem turn_atomic_witness:
  "accepted ''hi'' initialApp
   \<and> isLoading (turn_begin ''hi'' initialApp)
   \<and> turn_outcome silent_env ''hi'' initialApp = Some GenerationFailed
   \<and> history (handleSendMessage silent_env ''hi'' initialApp) = [initialStoryState]
   \<and> isLoading (handleSendMessage silent_env ''hi'' initialApp) = False
   \<and> turn_outcome mute_env ''hi'' initialApp = Some SynthesisFailed
   \<and> isLoading (turn_responded mute_env (turn_begin ''hi'' initialApp))
   \<and> history (handleSendMessage mute_env ''hi'' initialApp) = [initialStoryState]
   \<and> historyIndex (handleSendMessage mute_env ''hi'' initialApp) = 0
   \<and> chatHistory (view (handleSendMessage mute_env ''hi'' initialApp))
       = [welcomeMessage, \<lparr>author = USER, msg_text = ''hi''\<rparr>, apologyMessage]
   \<and> isLoading (handleSendMessage mute_env ''hi'' initialApp) = False
   \<and> turn_outcome deaf_env ''hi'' initialApp = None
   \<and> length (history (handleSendMessage deaf_env ''hi'' initialApp)) = 2
   \<and> turn (handleSendMessage deaf_env ''hi'' initialApp) = None
   \<and> isLoading (handleSendMessage deaf_env ''hi'' initialApp) = False
   \<and> turn_outcome plain_env ''hi'' initialApp = None
   \<and> length (history (handleSendMessage plain_env ''hi'' initialApp)) = 2
   \<and> historyIndex (handleSendMessage plain_env ''hi'' initialApp) = 1
   \<and> isLoading (handleSendMessage plain_env ''hi'' initialApp)
   \<and> invocation_ends 2 (DecodeSettled quiet_audio 0 True)
         (narration (handleSendMessage plain_env ''hi'' initialApp))
   \<and> isLoading (on_narration_event (DecodeSettled quiet_audio 0 True)
         (handleSendMessage plain_env ''hi'' initialApp)) = False
   \<and> length (history (on_narration_event (DecodeSettled quiet_audio 0 True)
         (handleSendMessage plain_env ''hi'' initialApp))) = 2
   \<and> \<not> invocation_ends 2 (SourceEnded quiet_audio 0)
         (narration (handleSendMessage plain_env ''hi'' initialApp))
   \<and> isLoading (on_narration_event (SourceEnded quiet_audio 0)
         (handleSendMessage plain_env ''hi'' initialApp))"
proof -
  note a = accepted_hi
  note w1 = turn_atomic [OF a, of silent_env]
  note w2 = turn_atomic [OF a, of mute_env]
  note w3 = turn_atomic [OF a, of deaf_env]
  note w4 = turn_atomic [OF a, of plain_env]
  let ?h = "handleSendMessage plain_env ''hi'' initialApp"
  have b: "isLoading (turn_begin ''hi'' initialApp)" using w1 by blast
  have f1: "history (handleSendMessage silent_env ''hi'' initialApp) = [initialStoryState]
          \<and> isLoading (handleSendMessage silent_env ''hi'' initialApp) = False"
    using w1 silent_outcome by (simp add: initial_facts)
  have f2: "isLoading (turn_responded mute_env (turn_begin ''hi'' initialApp))
      \<and> history (handleSendMessage mute_env ''hi'' initialApp) = [initialStoryState]
      \<and> historyIndex (handleSendMessage mute_env ''hi'' initialApp) = 0
      \<and> chatHistory (view (handleSendMessage mute_env ''hi'' initialApp))
          = [welcomeMessage, \<lparr>author = USER, msg_text = ''hi''\<rparr>, apologyMessage]
      \<and> isLoading (handleSendMessage mute_env ''hi'' initialApp) = False"
    using w2 mute_outcome by (simp add: initial_facts)
  have "(\<exists>snapshot. history (handleSendMessage deaf_env ''hi'' initialApp)
                          = take (historyIndex initialApp + 1) (history initialApp) @ [snapshot])
      \<and> (turn (handleSendMessage deaf_env ''hi'' initialApp) = None
           \<and> isLoading (handleSendMessage deaf_env ''hi'' initialApp) = False
          \<or> isLoading (handleSendMessage deaf_env ''hi'' initialApp)
             \<and> (\<exists>t V. turn (handleSendMessage deaf_env ''hi'' initialApp) = Some t
                   \<and> turn_phase t = AwaitNarration V))"
    using w3 deaf_outcome by blast
  then have f3: "length (history (handleSendMessage deaf_env ''hi'' initialApp)) = 2
      \<and> turn (handleSendMessage deaf_env ''hi'' initialApp) = None
      \<and> isLoading (handleSendMessage deaf_env ''hi'' initialApp) = False"
    using deaf_done by (auto simp: initial_facts)
  have s4: "(\<exists>snapshot. history ?h = take (historyIndex initialApp + 1) (history initialApp) @ [snapshot])
      \<and> historyIndex ?h = length (take (historyIndex initialApp + 1) (history initialApp))
      \<and> (turn ?h = None \<and> isLoading ?h = False
          \<or> isLoading ?h
            \<and> (\<exists>t V. turn ?h = Some t \<and> turn_phase t = AwaitNarration V
                 \<and> (\<forall>ev. invocation_ends V ev (narration ?h) \<longrightarrow>
                       isLoading (on_narration_event ev ?h) = False
                       \<and> history (on_narration_event ev ?h) = history ?h)
                 \<and> (\<forall>ev. \<not> invocation_ends V ev (narration ?h) \<longrightarrow>
                       isLoading (on_narration_event ev ?h))))"
    using w4 plain_outcome by blast
  then have len: "length (history ?h) = 2" and idx: "historyIndex ?h = 1"
    by (auto simp: initial_facts)
  from s4 plain_waits(1) have wait: "isLoading ?h"
    and fin: "\<forall>ev. invocation_ends 2 ev (narration ?h) \<longrightarrow>
                isLoading (on_narration_event ev ?h) = False
                \<and> history (on_narration_event ev ?h) = history ?h"
    and keep: "\<forall>ev. \<not> invocation_ends 2 ev (narration ?h) \<longrightarrow> isLoading (on_narration_event ev ?h)"
    by auto
  have e1: "invocation_ends 2 (DecodeSettled quiet_audio 0 True) (narration ?h)"
    by (simp add: plain_waits(2))
  have e2: "\<not> invocation_ends 2 (SourceEnded quiet_audio 0) (narration ?h)"
    by simp
  from fin e1 have g1: "isLoading (on_narration_event (DecodeSettled quiet_audio 0 True) ?h) = False"
    and g2: "length (history (on_narration_event (DecodeSettled quiet_audio 0 True) ?h)) = 2"
    using len by auto
  from keep e2 have g3: "isLoading (on_narration_event (SourceEnded quiet_audio 0) ?h)"
    by blast
  from a b f1 f2 f3 silent_outcome mute_outcome deaf_outcome plain_outcome len idx wait e1 e2 g1 g2 g3
  show ?thesis by (intro conjI) blast+
qed

text \<open>
  Claim C5, evaluated. The reply parses as JSON but its story is a number: the turn
  commits the raw text as the model message and keeps the parsed choices, because
  \<open>newChoices\<close> was assigned before the structure check threw. For a reply that is not
  JSON at all the committed choices are empty.
\<close>

theorem malformed_reply_keeps_choices:
  \<open>malformed_reply = ''{"story": 5, "choices": ["Go left"]}''
   \<and> history (handleSendMessage malformed_env ''hi'' initialApp)
       = [initialStoryState,
          \<lparr>chatHistory = [welcomeMessage, \<lparr>author = USER, msg_text = ''hi''\<rparr>,
                          \<lparr>author = MODEL, msg_text = malformed_reply\<rparr>],
           imageUrl = Some ''data:image/png;base64,AAAA'',
           choices = JArray [''Go left'']\<rparr>]
   \<and> choices (view (handleSendMessage malformed_env ''hi'' initialApp)) = JArray [''Go left'']
   \<and> choices (view (handleSendMessage malformed_env ''hi'' initialApp)) \<noteq> JArray []
   \<and> history (handleSendMessage plain_env ''hi'' initialApp)
       = [initialStoryState,
          \<lparr>chatHistory = [welcomeMessage, \<lparr>author = USER, msg_text = ''hi''\<rparr>,
                          \<lparr>author = MODEL, msg_text = ''Once upon a time...''\<rparr>],
           imageUrl = Some ''data:image/png;base64,AAAA'',
           choices = JArray []\<rparr>]\<close>
  by code_simp

section \<open>The story history under turns, undo and redo\<close>

text \<open>
  The state update that ends a successful turn is \<open>commit_turn\<close> with the snapshot the
  turn built, as far as the log and the cursor are concerned.
\<close>

lemma history_inv_begin: "history_inv s \<Longrightarrow> history_inv (turn_begin u s)"
  by (auto simp: history_inv_def turn_begin_def accepted_def Let_def split: option.splits)

lemma commit_turn_pending:
  assumes "turn s = Some t"
  shows "history (commit_turn x s) = take (turn_historyIndex t + 1) (turn_history t) @ [x]"
    "historyIndex (commit_turn x s) = length (take (turn_historyIndex t + 1) (turn_history t))"
    "isLoading (commit_turn x s) = False" "turn (commit_turn x s) = None"
  using assms by (simp_all add: commit_turn_def commit_def turn_finally_def sync_view_def Let_def)

lemma commit_turn_idle: "turn s = None \<Longrightarrow> commit_turn x s = s"
  by (simp add: commit_turn_def)

lemma history_inv_commit: "history_inv s \<Longrightarrow> history_inv (commit_turn x s)"
  by (cases "turn s") (simp_all add: commit_turn_idle commit_turn_pending history_inv_def)

lemma history_inv_fail: "history_inv s \<Longrightarrow> history_inv (fail_turn s)"
  by (cases "turn s") (simp_all add: fail_turn_def history_inv_def turn_finally_def turn_catch_def)

lemma history_inv_undo: "history_inv s \<Longrightarrow> history_inv (handleUndo s)"
  by (auto simp: history_inv_def handleUndo_def sync_view_def canUndo_def split: option.splits)

lemma history_inv_redo: "history_inv s \<Longrightarrow> history_inv (handleRedo s)"
  by (auto simp: history_inv_def handleRedo_def sync_view_def canRedo_def split: option.splits)

lemma history_inv_op: "history_inv s \<Longrightarrow> history_inv (apply_history_op op s)"
  by (cases op) (simp_all add: history_inv_begin history_inv_commit history_inv_fail
      history_inv_undo history_inv_redo)

lemma history_inv_run: "history_inv s \<Longrightarrow> history_inv (run_history ops s)"
  unfolding run_history_def by (induction ops arbitrary: s) (simp_all add: history_inv_op)

lemma history_inv_initial: "history_inv initialApp"
  by (simp add: history_inv_def initialApp_def)

lemma all_settled_is_commit:
  assumes "turn s = Some t" "turn_phase t = AwaitAll storyText c requests prompt"
    "None \<notin> set (map (\<lambda>(txt, voice). textToSpeech E txt voice) requests)"
  shows "history (turn_all_settled E s)
           = history (commit_turn \<lparr>chatHistory = turn_chatHistory t @ [\<lparr>author = MODEL, msg_text = storyText\<rparr>],
                                    imageUrl = Some (generateIllustration E prompt), choices = c\<rparr> s)"
    "historyIndex (turn_all_settled E s)
           = historyIndex (commit_turn \<lparr>chatHistory = turn_chatHistory t @ [\<lparr>author = MODEL, msg_text = storyText\<rparr>],
                                    imageUrl = Some (generateIllustration E prompt), choices = c\<rparr> s)"
  unfolding all_settled_commits [OF assms]
  by (simp_all add: committed_history commit_turn_pending [OF assms(1)] turn_finally_def)

lemma begin_commit:
  assumes "accepted u s"
  shows "history (commit_turn x (turn_begin u s)) = take (historyIndex s + 1) (history s) @ [x]"
    "historyIndex (commit_turn x (turn_begin u s)) = length (take (historyIndex s + 1) (history s))"
proof -
  from turn_begin_facts(6) [OF assms] obtain t where t: "turn (turn_begin u s) = Some t"
    "turn_history t = history s" "turn_historyIndex t = historyIndex s"
    by blast
  show "history (commit_turn x (turn_begin u s)) = take (historyIndex s + 1) (history s) @ [x]"
    "historyIndex (commit_turn x (turn_begin u s)) = length (take (historyIndex s + 1) (history s))"
    by (simp_all add: commit_turn_pending [OF t(1)] t)
qed

lemma undo_turn: "turn (handleUndo s) = turn s"
  by (simp add: handleUndo_def sync_view_def)

lemma begin_undo_commit:
  assumes "accepted u s"
  shows "history (commit_turn x (handleUndo (turn_begin u s))) = take (historyIndex s + 1) (history s) @ [x]"
    "historyIndex (commit_turn x (handleUndo (turn_begin u s))) = length (take (historyIndex s + 1) (history s))"
proof -
  from turn_begin_facts(6) [OF assms] obtain t where t: "turn (turn_begin u s) = Some t"
    "turn_history t = history s" "turn_historyIndex t = historyIndex s"
    by blast
  have t': "turn (handleUndo (turn_begin u s)) = Some t" by (simp add: undo_turn t)
  show "history (commit_turn x (handleUndo (turn_begin u s))) = take (historyIndex s + 1) (history s) @ [x]"
    "historyIndex (commit_turn x (handleUndo (turn_begin u s))) = length (take (historyIndex s + 1) (history s))"
    by (simp_all add: commit_turn_pending [OF t'] t)
qed

lemma redo_at_end:
  assumes "historyIndex s + 1 = length (history s)"
  shows "handleRedo s = s"
  using assms by (simp add: handleRedo_def canRedo_def)

text \<open>
  Claim C2, evaluated. In every state the component reaches by turns, undos and redos
  the cursor is an index of the log. The commit of a pending turn keeps the prefix of
  the log up to the cursor that the turn captured when it started, appends the
  snapshot and moves the cursor to the new last index. A turn with nothing in between
  therefore truncates at the cursor, and a redo after it changes nothing. But when undo
  is clicked while the turn is pending, the cursor moves back by one and the commit
  still truncates at the captured cursor: the log is not the prefix up to the cursor
  followed by the snapshot, the snapshot the user went back from is kept, and the
  cursor ends two positions after where the undo had put it.
\<close>

theorem commit_uses_captured_cursor:
  assumes "history_inv s"
  shows "historyIndex (run_history ops s) < length (history (run_history ops s))
    \<and> (\<forall>t. turn s = Some t \<longrightarrow>
          history (run_history [Commit x] s) = take (turn_historyIndex t + 1) (history s) @ [x]
          \<and> historyIndex (run_history [Commit x] s) + 1 = length (history (run_history [Commit x] s)))
    \<and> (accepted u s \<longrightarrow>
          history (run_history [Begin u, Commit x] s) = take (historyIndex s + 1) (history s) @ [x]
          \<and> historyIndex (run_history [Begin u, Commit x] s) = historyIndex s + 1
          \<and> run_history [Begin u, Commit x, Redo] s = run_history [Begin u, Commit x] s)
    \<and> (accepted u s \<and> canUndo s \<longrightarrow>
          historyIndex (run_history [Begin u, Undo] s) = historyIndex s - 1
          \<and> history (run_history [Begin u, Undo] s) = history s
          \<and> history (run_history [Begin u, Undo, Commit x] s) = take (historyIndex s + 1) (history s) @ [x]
          \<and> history (run_history [Begin u, Undo, Commit x] s)
              \<noteq> take (historyIndex (run_history [Begin u, Undo] s) + 1)
                       (history (run_history [Begin u, Undo] s)) @ [x]
          \<and> historyIndex (run_history [Begin u, Undo, Commit x] s) = historyIndex s + 1)"
proof -
  have idx: "historyIndex s < length (history s)" using assms by (simp add: history_inv_def)
  have a: "historyIndex (run_history ops s) < length (history (run_history ops s))"
    using history_inv_run [OF assms, of ops] by (simp add: history_inv_def)
  have b: "history (run_history [Commit x] s) = take (turn_historyIndex t + 1) (history s) @ [x]
          \<and> historyIndex (run_history [Commit x] s) + 1 = length (history (run_history [Commit x] s))"
    if t: "turn s = Some t" for t
  proof -
    have "turn_history t = history s" using assms t by (simp add: history_inv_def)
    then show ?thesis by (simp add: run_history_def commit_turn_pending [OF t])
  qed
  have c: "history (run_history [Begin u, Commit x] s) = take (historyIndex s + 1) (history s) @ [x]
          \<and> historyIndex (run_history [Begin u, Commit x] s) = historyIndex s + 1
          \<and> run_history [Begin u, Commit x, Redo] s = run_history [Begin u, Commit x] s"
    if acc: "accepted u s"
  proof -
    have 1: "history (run_history [Begin u, Commit x] s) = take (historyIndex s + 1) (history s) @ [x]"
      and 2: "historyIndex (run_history [Begin u, Commit x] s) = historyIndex s + 1"
      using idx by (simp_all add: run_history_def begin_commit [OF acc])
    have "run_history [Begin u, Commit x, Redo] s = handleRedo (run_history [Begin u, Commit x] s)"
      by (simp add: run_history_def)
    also have "\<dots> = run_history [Begin u, Commit x] s"
      using idx by (intro redo_at_end) (simp add: 1 2)
    finally show ?thesis using 1 2 by simp
  qed
  have d: "historyIndex (run_history [Begin u, Undo] s) = historyIndex s - 1
          \<and> history (run_history [Begin u, Undo] s) = history s
          \<and> history (run_history [Begin u, Undo, Commit x] s) = take (historyIndex s + 1) (history s) @ [x]
          \<and> history (run_history [Begin u, Undo, Commit x] s)
              \<noteq> take (historyIndex (run_history [Begin u, Undo] s) + 1)
                       (history (run_history [Begin u, Undo] s)) @ [x]
          \<and> historyIndex (run_history [Begin u, Undo, Commit x] s) = historyIndex s + 1"
    if acc: "accepted u s" and cu: "canUndo s"
  proof -
    have pos: "0 < historyIndex s" using cu by (simp add: canUndo_def)
    have cu': "canUndo (turn_begin u s)"
      using cu by (simp add: canUndo_def turn_begin_facts(3) [OF acc])
    have 1: "historyIndex (run_history [Begin u, Undo] s) = historyIndex s - 1"
      using cu' by (simp add: run_history_def undo_index turn_begin_facts(3) [OF acc])
    have 2: "history (run_history [Begin u, Undo] s) = history s"
      by (simp add: run_history_def undo_history turn_begin_facts(2) [OF acc])
    have 3: "history (run_history [Begin u, Undo, Commit x] s) = take (historyIndex s + 1) (history s) @ [x]"
      and 4: "historyIndex (run_history [Begin u, Undo, Commit x] s) = historyIndex s + 1"
      using idx by (simp_all add: run_history_def begin_undo_commit [OF acc])
    have "length (take (historyIndex s + 1) (history s) @ [x])
            \<noteq> length (take (historyIndex s - 1 + 1) (history s) @ [x])"
      using idx pos by simp
    then have 5: "take (historyIndex s + 1) (history s) @ [x] \<noteq> take (historyIndex s - 1 + 1) (history s) @ [x]"
      by metis
    show ?thesis unfolding 1 2 3 4 using 5 by simp
  qed
  from a b c d show ?thesis by blast
qed

text \<open>
  From the seed \<open>A\<close> and two turns the log is \<open>[A, B, C]\<close> with the cursor at 2. Undo
  moves the cursor to 1 and shows \<open>B\<close>; a turn started then ends with the log \<open>[A, B, D]\<close>
  and the cursor at 2, and redo changes nothing. When the turn is started first and undo
  is clicked while it is pending, the cursor is at 1 and \<open>B\<close> is shown when the turn
  commits, and the log becomes \<open>[A, B, C, D]\<close> with the cursor at 3.
\<close>

theorem commit_uses_captured_cursor_witness:
  "history_inv three_snapshots \<and> accepted ''d'' three_snapshots \<and> canUndo three_snapshots
   \<and> history three_snapshots = [initialStoryState, snap ''B'', snap ''C'']
   \<and> historyIndex three_snapshots = 2
   \<and> historyIndex (run_history [Undo] three_snapshots) = 1
   \<and> view (run_history [Undo] three_snapshots) = snap ''B''
   \<and> history_inv (run_history [Undo] three_snapshots)
   \<and> accepted ''d'' (run_history [Undo] three_snapshots)
   \<and> history (run_history [Begin ''d'', Commit (snap ''D'')] (run_history [Undo] three_snapshots))
       = [initialStoryState, snap ''B'', snap ''D'']
   \<and> historyIndex (run_history [Begin ''d'', Commit (snap ''D'')] (run_history [Undo] three_snapshots)) = 2
   \<and> run_history [Begin ''d'', Commit (snap ''D''), Redo] (run_history [Undo] three_snapshots)
       = run_history [Begin ''d'', Commit (snap ''D'')] (run_history [Undo] three_snapshots)
   \<and> isLoading (run_history [Begin ''d'', Undo] three_snapshots)
   \<and> historyIndex (run_history [Begin ''d'', Undo] three_snapshots) = 1
   \<and> view (run_history [Begin ''d'', Undo] three_snapshots) = snap ''B''
   \<and> history (run_history [Begin ''d'', Undo, Commit (snap ''D'')] three_snapshots)
       = [initialStoryState, snap ''B'', snap ''C'', snap ''D'']
   \<and> history (run_history [Begin ''d'', Undo, Commit (snap ''D'')] three_snapshots)
       \<noteq> [initialStoryState, snap ''B'', snap ''D'']
   \<and> historyIndex (run_history [Begin ''d'', Undo, Commit (snap ''D'')] three_snapshots) = 3
   \<and> historyIndex (run_history [Begin ''d'', Undo, Commit (snap ''D''), Redo, Fail, Undo, Undo, Undo, Undo]
        three_snapshots) = 0"
proof -
  let ?u = "run_history [Undo] three_snapshots"
  have i3: "history_inv three_snapshots" and a3: "accepted ''d'' three_snapshots"
    and c3: "canUndo three_snapshots"
    and h3: "history three_snapshots = [initialStoryState, snap ''B'', snap ''C'']"
    and x3: "historyIndex three_snapshots = 2"
    by code_simp+
  have iu: "history_inv ?u" and au: "accepted ''d'' ?u"
    and hu: "history ?u = [initialStoryState, snap ''B'', snap ''C'']"
    and xu: "historyIndex ?u = 1" and vu: "view ?u = snap ''B''"
    by code_simp+
  have lw: "isLoading (run_history [Begin ''d'', Undo] three_snapshots)"
    and vw: "view (run_history [Begin ''d'', Undo] three_snapshots) = snap ''B''"
    by code_simp+
  note w1 = commit_uses_captured_cursor [OF iu, of "[]" "snap ''D''" "''d''"]
  note w2 = commit_uses_captured_cursor [OF i3,
      of "[Begin ''d'', Undo, Commit (snap ''D''), Redo, Fail, Undo, Undo, Undo, Undo]" "snap ''D''" "''d''"]
  from w1 au have u1: "history (run_history [Begin ''d'', Commit (snap ''D'')] ?u)
        = take (historyIndex ?u + 1) (history ?u) @ [snap ''D'']"
    and u2: "historyIndex (run_history [Begin ''d'', Commit (snap ''D'')] ?u) = historyIndex ?u + 1"
    and u3: "run_history [Begin ''d'', Commit (snap ''D''), Redo] ?u
               = run_history [Begin ''d'', Commit (snap ''D'')] ?u"
    by blast+
  from w2 a3 c3 have v1: "historyIndex (run_history [Begin ''d'', Undo] three_snapshots)
        = historyIndex three_snapshots - 1"
    and v2: "history (run_history [Begin ''d'', Undo, Commit (snap ''D'')] three_snapshots)
        = take (historyIndex three_snapshots + 1) (history three_snapshots) @ [snap ''D'']"
    and v3: "historyIndex (run_history [Begin ''d'', Undo, Commit (snap ''D'')] three_snapshots)
        = historyIndex three_snapshots + 1"
    by blast+
  have z: "historyIndex (run_history [Begin ''d'', Undo, Commit (snap ''D''), Redo, Fail, Undo, Undo, Undo, Undo]
        three_snapshots) = 0"
    by code_simp
  have f1: "history (run_history [Begin ''d'', Commit (snap ''D'')] ?u) = [initialStoryState, snap ''B'', snap ''D'']"
    unfolding u1 hu xu by simp
  have f2: "historyIndex (run_history [Begin ''d'', Commit (snap ''D'')] ?u) = 2"
    unfolding u2 xu by simp
  have g1: "historyIndex (run_history [Begin ''d'', Undo] three_snapshots) = 1"
    unfolding v1 x3 by simp
  have g2: "history (run_history [Begin ''d'', Undo, Commit (snap ''D'')] three_snapshots)
       = [initialStoryState, snap ''B'', snap ''C'', snap ''D'']"
    unfolding v2 h3 x3 by simp
  have g3: "historyIndex (run_history [Begin ''d'', Undo, Commit (snap ''D'')] three_snapshots) = 3"
    unfolding v3 x3 by simp
  have g4: "history (run_history [Begin ''d'', Undo, Commit (snap ''D'')] three_snapshots)
       \<noteq> [initialStoryState, snap ''B'', snap ''D'']"
    unfolding g2 by simp
  from i3 a3 c3 h3 x3 xu vu iu au f1 f2 u3 lw g1 vw g2 g4 g3 z
  show ?thesis by (intro conjI)
qed

end
